theory Spec2Isabelle
  imports Complex_Main "HOL-Library.AList" "HOL-Library.Code_Target_Numeral"
begin

section \<open>Python floats\<close>

text \<open>
  A Python float is an IEEE double: a finite value, which is a rational \<open>m * 2^e\<close> with
  \<open>\<bar>m\<bar> < 2^53\<close> and \<open>- 1074 \<le> e \<le> 971\<close>, the negative zero, an infinity or the value that
  is not a number. \<open>Finite 0\<close> is the positive zero.
\<close>

datatype pyfloat = Finite rat | NegZero | PosInf | NegInf | NaN

definition pow2 :: "int \<Rightarrow> rat" where
  "pow2 e = (if 0 \<le> e then 2 ^ nat e else 1 / 2 ^ nat (- e))"

definition pow10 :: "int \<Rightarrow> rat" where
  "pow10 e = (if 0 \<le> e then 10 ^ nat e else 1 / 10 ^ nat (- e))"

function bit_length :: "int \<Rightarrow> int" where
  "bit_length n = (if n \<le> 0 then 0 else 1 + bit_length (n div 2))"
  by pat_completeness auto
termination
  by (relation "measure nat") auto

function digit_length :: "int \<Rightarrow> int" where
  "digit_length n = (if n \<le> 0 then 0 else 1 + digit_length (n div 10))"
  by pat_completeness auto
termination
  by (relation "measure nat") auto

declare bit_length.simps [simp del] digit_length.simps [simp del]

text \<open>The integer part of the logarithm of a positive rational, to the bases 2 and 10.\<close>

definition floor_log2 :: "rat \<Rightarrow> int" where
  "floor_log2 q =
     (let (a, b) = quotient_of q;
          e = bit_length a - bit_length b
      in if pow2 e \<le> q then e else e - 1)"

definition floor_log10 :: "rat \<Rightarrow> int" where
  "floor_log10 q =
     (let (a, b) = quotient_of q;
          e = digit_length a - digit_length b
      in if pow10 e \<le> q then e else e - 1)"

definition round_half_even :: "rat \<Rightarrow> int" where
  "round_half_even x =
     (let f = \<lfloor>x\<rfloor>; r = x - of_int f
      in if r < 1 / 2 then f else if 1 / 2 < r then f + 1 else if even f then f else f + 1)"

text \<open>
  \<open>to_double neg a\<close> is the double nearest to the non-negative rational \<open>a\<close>, with the sign
  \<open>neg\<close>: 53 bits are kept, fewer below \<open>2^(- 1022)\<close>, a tie goes to the even neighbour, and
  what rounds to \<open>2^1024\<close> is an infinity.
\<close>

definition to_double :: "bool \<Rightarrow> rat \<Rightarrow> pyfloat" where
  "to_double neg a =
     (if a = 0 then (if neg then NegZero else Finite 0)
      else
        let u = max (floor_log2 a - 52) (- 1074);
            m = round_half_even (a / pow2 u);
            v = of_int m * pow2 u
        in if pow2 1024 \<le> v then (if neg then NegInf else PosInf)
           else if m = 0 then (if neg then NegZero else Finite 0)
           else Finite (if neg then - v else v))"

text \<open>
  The float of a decimal literal with the digits \<open>mant\<close> and the decimal exponent \<open>e10\<close>, as
  \<^verbatim>\<open>float(text)\<close> rounds it. A literal above \<open>10^310\<close> or below \<open>10^(- 331)\<close> is decided without
  computing its power of ten: it is beyond the largest double, or below half of the least.
\<close>

definition float_of_decimal :: "bool \<Rightarrow> int \<Rightarrow> int \<Rightarrow> pyfloat" where
  "float_of_decimal neg mant e10 =
     (if mant = 0 then (if neg then NegZero else Finite 0)
      else if 310 < e10 + digit_length mant then (if neg then NegInf else PosInf)
      else if e10 + digit_length mant < - 330 then (if neg then NegZero else Finite 0)
      else to_double neg (of_int mant * pow10 e10))"

text \<open>\<^verbatim>\<open>n * x\<close> for a float \<open>x\<close> and a small non-negative integer \<open>n\<close>, which is a float itself.\<close>

definition float_mul_int :: "nat \<Rightarrow> pyfloat \<Rightarrow> pyfloat" where
  "float_mul_int n x =
     (case x of
        Finite q \<Rightarrow>
          if n = 0 \<or> q = 0 then (if q < 0 then NegZero else Finite 0)
          else to_double (q < 0) (of_nat n * \<bar>q\<bar>)
      | NegZero \<Rightarrow> NegZero
      | PosInf \<Rightarrow> if n = 0 then NaN else PosInf
      | NegInf \<Rightarrow> if n = 0 then NaN else NegInf
      | NaN \<Rightarrow> NaN)"


section \<open>Python values and exceptions\<close>

text \<open>
  The save data of the Delta engine is whatever \<^verbatim>\<open>json.loads\<close> returns: a dynamically typed
  Python value. \<open>py\<close> is the type of those values. A dictionary is an association list in
  insertion order with one entry per key, as Python dictionaries are ordered. Equality of
  \<open>py\<close> values is not Python's \<^verbatim>\<open>==\<close>: that ignores the order of keys, equates an integer
  with the float of its value, and tells a float that is not a number from itself.
\<close>

datatype py =
    PNone
  | PBool bool
  | PInt int
  | PFloat pyfloat
  | PStr string
  | PList "py list"
  | PDict "(string \<times> py) list"

text \<open>The exceptions that the modelled code can raise; a raise is the result \<open>Inl e\<close>.\<close>

datatype py_error =
    KeyError
  | TypeError
  | AttributeError
  | OSError
  | ValueError
  | JSONDecodeError
  | RecursionError

definition and_then :: "py_error + 'a \<Rightarrow> ('a \<Rightarrow> py_error + 'b) \<Rightarrow> py_error + 'b" where
  "and_then m f = (case m of Inl e \<Rightarrow> Inl e | Inr v \<Rightarrow> f v)"

text \<open>\<^verbatim>\<open>obj[key]\<close> with a string key: only a dictionary can answer it.\<close>

fun py_getitem :: "py \<Rightarrow> string \<Rightarrow> py_error + py" where
  "py_getitem (PDict kvs) k = (case map_of kvs k of None \<Rightarrow> Inl KeyError | Some v \<Rightarrow> Inr v)"
| "py_getitem _ k = Inl TypeError"

text \<open>
  \<^verbatim>\<open>obj[key] = value\<close> with a string key: a dictionary replaces the value of a key it has,
  in place, and appends a key it has not.
\<close>

fun py_setitem :: "py \<Rightarrow> string \<Rightarrow> py \<Rightarrow> py_error + py" where
  "py_setitem (PDict kvs) k v = Inr (PDict (AList.update k v kvs))"
| "py_setitem _ k v = Inl TypeError"

text \<open>
  \<^verbatim>\<open>n * value\<close> for a positive integer constant \<open>n\<close>: arithmetic on integers, booleans and
  floats, repetition on strings and lists, a \<^verbatim>\<open>TypeError\<close> on \<^verbatim>\<open>None\<close> and on dictionaries.
\<close>

fun py_int_mul :: "nat \<Rightarrow> py \<Rightarrow> py_error + py" where
  "py_int_mul n (PInt i) = Inr (PInt (int n * i))"
| "py_int_mul n (PBool b) = Inr (PInt (int n * (if b then 1 else 0)))"
| "py_int_mul n (PFloat x) = Inr (PFloat (float_mul_int n x))"
| "py_int_mul n (PStr s) = Inr (PStr (concat (replicate n s)))"
| "py_int_mul n (PList vs) = Inr (PList (concat (replicate n vs)))"
| "py_int_mul n PNone = Inl TypeError"
| "py_int_mul n (PDict kvs) = Inl TypeError"


section \<open>The JSON encoder: \<^verbatim>\<open>json.dumps(data, indent=2)\<close>\<close>

text \<open>
  Characters are code points below 256. The encoder is Python's with its default
  \<^verbatim>\<open>ensure_ascii=True\<close>: inside a string the quote, the backslash and every character outside
  the printable ASCII range are escaped. With \<^verbatim>\<open>indent=2\<close> every item of a non-empty
  container is on a line of its own, two spaces deeper than the container, items are
  separated by a comma, and a key is followed by a colon and a space.
\<close>

abbreviation dq :: char where "dq \<equiv> CHR 0x22"
abbreviation backslash :: char where "backslash \<equiv> CHR 0x5C"
abbreviation newline :: char where "newline \<equiv> CHR 0x0A"

definition digit_char :: "nat \<Rightarrow> char" where
  "digit_char n = char_of (48 + n)"

fun show_nat :: "nat \<Rightarrow> string" where
  "show_nat n = (if n < 10 then [digit_char n] else show_nat (n div 10) @ [digit_char (n mod 10)])"

declare show_nat.simps [simp del]

definition show_int :: "int \<Rightarrow> string" where
  "show_int i = (if i < 0 then CHR ''-'' # show_nat (nat (- i)) else show_nat (nat i))"

text \<open>
  \<^verbatim>\<open>float.__repr__\<close>: the shortest decimal that \<^verbatim>\<open>float\<close> reads back as the same double, and the
  one nearest to the double among the decimals of that length. \<open>candidate q k\<close> looks at the
  two decimals of \<open>k\<close> digits next to \<open>q\<close>; seventeen digits always suffice.
\<close>

definition candidate :: "rat \<Rightarrow> int \<Rightarrow> (int \<times> int) option" where
  "candidate q k =
     (let e = floor_log10 q - k + 1;
          s = pow10 e;
          lo = \<lfloor>q / s\<rfloor>;
          hi = lo + 1;
          oklo = (to_double False (of_int lo * s) = Finite q);
          okhi = (to_double False (of_int hi * s) = Finite q);
          dlo = q - of_int lo * s;
          dhi = of_int hi * s - q
      in if oklo \<and> okhi then
           Some (if dlo < dhi then lo else if dhi < dlo then hi else if even lo then lo else hi, e)
         else if oklo then Some (lo, e)
         else if okhi then Some (hi, e)
         else None)"

fun shortest :: "nat \<Rightarrow> int \<Rightarrow> rat \<Rightarrow> int \<times> int" where
  "shortest fuel k q =
     (case candidate q k of
        Some r \<Rightarrow> r
      | None \<Rightarrow>
          (case fuel of
             0 \<Rightarrow> (round_half_even (q / pow10 (floor_log10 q - k + 1)), floor_log10 q - k + 1)
           | Suc f \<Rightarrow> shortest f (k + 1) q))"

definition strip_zeros :: "string \<Rightarrow> string" where
  "strip_zeros ds = rev (dropWhile (\<lambda>c. c = CHR ''0'') (rev ds))"

text \<open>
  The digits \<open>ds\<close> with the decimal point after the first \<open>decpt\<close> of them: in positional
  notation when \<open>- 4 < decpt \<le> 16\<close>, with an exponent of at least two digits otherwise.
\<close>

definition format_float :: "string \<Rightarrow> int \<Rightarrow> string" where
  "format_float ds decpt =
     (if decpt \<le> - 4 \<or> 16 < decpt then
        hd ds # (if tl ds = [] then [] else CHR ''.'' # tl ds)
        @ [CHR ''e'', if decpt - 1 < 0 then CHR ''-'' else CHR ''+'']
        @ (if \<bar>decpt - 1\<bar> < 10 then ''0'' else [])
        @ show_nat (nat \<bar>decpt - 1\<bar>)
      else if decpt \<le> 0 then ''0.'' @ replicate (nat (- decpt)) (CHR ''0'') @ ds
      else if int (length ds) \<le> decpt then
        ds @ replicate (nat decpt - length ds) (CHR ''0'') @ ''.0''
      else take (nat decpt) ds @ ''.'' @ drop (nat decpt) ds)"

definition repr_positive :: "rat \<Rightarrow> string" where
  "repr_positive q =
     (let (n, e) = shortest 16 1 q;
          ds = show_nat (nat n)
      in format_float (strip_zeros ds) (int (length ds) + e))"

text \<open>
  The text of a float in JSON, with the default \<^verbatim>\<open>allow_nan=True\<close> of the encoder.
\<close>

definition floatstr :: "pyfloat \<Rightarrow> string" where
  "floatstr x =
     (case x of
        Finite q \<Rightarrow>
          if q = 0 then ''0.0''
          else if q < 0 then CHR ''-'' # repr_positive (- q)
          else repr_positive q
      | NegZero \<Rightarrow> ''-0.0''
      | PosInf \<Rightarrow> ''Infinity''
      | NegInf \<Rightarrow> ''-Infinity''
      | NaN \<Rightarrow> ''NaN'')"

definition hex_char :: "nat \<Rightarrow> char" where
  "hex_char n = ''0123456789abcdef'' ! (n mod 16)"

definition escape_char :: "char \<Rightarrow> string" where
  "escape_char c =
     (if c = dq then [backslash, dq]
      else if c = backslash then [backslash, backslash]
      else if c = newline then [backslash, CHR ''n'']
      else if c = CHR 0x0D then [backslash, CHR ''r'']
      else if c = CHR 0x09 then [backslash, CHR ''t'']
      else if c = CHR 0x08 then [backslash, CHR ''b'']
      else if c = CHR 0x0C then [backslash, CHR ''f'']
      else if 32 \<le> (of_char c :: nat) \<and> (of_char c :: nat) \<le> 126 then [c]
      else [backslash, CHR ''u'', CHR ''0'', CHR ''0'',
            hex_char (of_char c div 16), hex_char (of_char c)])"

definition encode_basestring_ascii :: "string \<Rightarrow> string" where
  "encode_basestring_ascii s = dq # concat (map escape_char s) @ [dq]"

fun join :: "string \<Rightarrow> string list \<Rightarrow> string" where
  "join sep [] = []"
| "join sep [s] = s"
| "join sep (s # t # ss) = s @ sep @ join sep (t # ss)"

definition newline_indent :: "nat \<Rightarrow> string" where
  "newline_indent level = newline # replicate (2 * level) (CHR '' '')"

fun iterencode :: "nat \<Rightarrow> py \<Rightarrow> string" where
  "iterencode level PNone = ''null''"
| "iterencode level (PBool b) = (if b then ''true'' else ''false'')"
| "iterencode level (PInt i) = show_int i"
| "iterencode level (PFloat x) = floatstr x"
| "iterencode level (PStr s) = encode_basestring_ascii s"
| "iterencode level (PList vs) =
     (if vs = [] then ''[]''
      else ''['' @ newline_indent (Suc level)
           @ join ('','' @ newline_indent (Suc level)) (map (iterencode (Suc level)) vs)
           @ newline_indent level @ '']'')"
| "iterencode level (PDict kvs) =
     (if kvs = [] then ''{}''
      else ''{'' @ newline_indent (Suc level)
           @ join ('','' @ newline_indent (Suc level))
               (map (\<lambda>kv. encode_basestring_ascii (fst kv) @ '': ''
                            @ iterencode (Suc level) (snd kv)) kvs)
           @ newline_indent level @ ''}'')"

definition json_dumps :: "py \<Rightarrow> string" where
  "json_dumps data = iterencode 0 data"


section \<open>The JSON decoder: \<^verbatim>\<open>json.loads\<close>\<close>

text \<open>
  The decoder follows Python's scanner: \<^verbatim>\<open>scan_once\<close> looks at the first character and reads
  a string, an object, an array, one of the literals or a number; objects and arrays skip
  white space around their items; the text must end after the value and trailing white
  space. A string is read in strict mode, which rejects raw control characters. Keys
  that occur twice keep their first position and their last value, as \<^verbatim>\<open>dict(pairs)\<close> does.
  A number with a fraction or an exponent is a float, any other an integer; \<^verbatim>\<open>NaN\<close>,
  \<^verbatim>\<open>Infinity\<close> and \<^verbatim>\<open>-Infinity\<close> are floats too.

  The model covers texts over code points below 256: it reports \<^verbatim>\<open>JSONDecodeError\<close> for a
  \<^verbatim>\<open>\u\<close> escape above \<^verbatim>\<open>00ff\<close>. The limits of an interpreter on the depth of nesting and on
  the number of digits of an integer depend on its version and its settings and are not
  modelled.

  The recursion of the scanner is bounded by fuel, and running out of it is the result
  \<^verbatim>\<open>RecursionError\<close>. \<open>json_loads\<close> supplies twice the length of the text and one more,
  which is never used up, as \<open>json_loads_fuel\<close> below shows.
\<close>

definition is_ws :: "char \<Rightarrow> bool" where
  "is_ws c = (c = CHR '' '' \<or> c = CHR 0x09 \<or> c = newline \<or> c = CHR 0x0D)"

definition skip_ws :: "string \<Rightarrow> string" where
  "skip_ws s = dropWhile is_ws s"

definition is_digit :: "char \<Rightarrow> bool" where
  "is_digit c = (48 \<le> (of_char c :: nat) \<and> (of_char c :: nat) \<le> 57)"

definition digit_val :: "char \<Rightarrow> nat" where
  "digit_val c = of_char c - 48"

definition digits_val :: "string \<Rightarrow> nat" where
  "digits_val ds = foldl (\<lambda>acc c. 10 * acc + digit_val c) 0 ds"

text \<open>The integer part of a number: a single \<^verbatim>\<open>0\<close>, or a non-zero digit and the digits after it.\<close>

definition scan_natural :: "string \<Rightarrow> py_error + (nat \<times> string)" where
  "scan_natural s =
     (case s of
        [] \<Rightarrow> Inl JSONDecodeError
      | c # cs \<Rightarrow>
          if c = CHR ''0'' then Inr (0, cs)
          else if is_digit c then Inr (digits_val (takeWhile is_digit s), dropWhile is_digit s)
          else Inl JSONDecodeError)"

text \<open>
  The fraction of a number, a point and the digits after it, when a digit follows the
  point; and its exponent, when a digit follows the letter and the sign. What does not
  complete a fraction or an exponent is left unread.
\<close>

definition scan_fraction :: "string \<Rightarrow> string \<times> string" where
  "scan_fraction s =
     (case s of
        c # d # cs \<Rightarrow>
          if c = CHR ''.'' \<and> is_digit d
          then (takeWhile is_digit (d # cs), dropWhile is_digit (d # cs))
          else ([], s)
      | _ \<Rightarrow> ([], s))"

definition scan_exponent :: "string \<Rightarrow> int option \<times> string" where
  "scan_exponent s =
     (case s of
        [] \<Rightarrow> (None, s)
      | c # cs \<Rightarrow>
          if c = CHR ''e'' \<or> c = CHR ''E'' then
            (case cs of
               [] \<Rightarrow> (None, s)
             | d # ds \<Rightarrow>
                 if is_digit d then
                   (Some (int (digits_val (takeWhile is_digit cs))), dropWhile is_digit cs)
                 else if d = CHR ''+'' \<or> d = CHR ''-'' then
                   (case ds of
                      [] \<Rightarrow> (None, s)
                    | x # xs \<Rightarrow>
                        if is_digit x then
                          (Some ((if d = CHR ''-'' then - 1 else 1)
                                   * int (digits_val (takeWhile is_digit ds))),
                           dropWhile is_digit ds)
                        else (None, s))
                 else (None, s))
          else (None, s))"

definition scan_number :: "string \<Rightarrow> py_error + (py \<times> string)" where
  "scan_number s =
     (case s of
        [] \<Rightarrow> Inl JSONDecodeError
      | c # cs \<Rightarrow>
          let neg = (c = CHR ''-'') in
          and_then (scan_natural (if neg then cs else s)) (\<lambda>(n, r).
            let (frac, r1) = scan_fraction r;
                (ex, r2) = scan_exponent r1
            in if frac = [] \<and> ex = None
               then Inr (PInt (if neg then - int n else int n), r)
               else Inr (PFloat (float_of_decimal neg
                           (int n * 10 ^ length frac + int (digits_val frac))
                           ((case ex of None \<Rightarrow> 0 | Some e \<Rightarrow> e) - int (length frac))),
                         r2)))"

definition hex_val :: "char \<Rightarrow> nat option" where
  "hex_val c =
     (let n = (of_char c :: nat) in
      if 48 \<le> n \<and> n \<le> 57 then Some (n - 48)
      else if 97 \<le> n \<and> n \<le> 102 then Some (n - 87)
      else if 65 \<le> n \<and> n \<le> 70 then Some (n - 55)
      else None)"

definition unescape :: "char \<Rightarrow> char option" where
  "unescape c =
     (if c = dq then Some dq
      else if c = backslash then Some backslash
      else if c = CHR ''/'' then Some (CHR ''/'')
      else if c = CHR ''b'' then Some (CHR 0x08)
      else if c = CHR ''f'' then Some (CHR 0x0C)
      else if c = CHR ''n'' then Some newline
      else if c = CHR ''r'' then Some (CHR 0x0D)
      else if c = CHR ''t'' then Some (CHR 0x09)
      else None)"

definition prepend :: "char \<Rightarrow> py_error + (string \<times> string) \<Rightarrow> py_error + (string \<times> string)" where
  "prepend c m = and_then m (\<lambda>(s, r). Inr (c # s, r))"

text \<open>
  The character of a \<^verbatim>\<open>\uXXXX\<close> escape, from its four hexadecimal digits, when its code
  point is below 256.
\<close>

definition hex4 :: "char \<Rightarrow> char \<Rightarrow> char \<Rightarrow> char \<Rightarrow> char option" where
  "hex4 a b h l =
     (case (hex_val a, hex_val b, hex_val h, hex_val l) of
        (Some x3, Some x2, Some x1, Some x0) \<Rightarrow>
          (let n = 4096 * x3 + 256 * x2 + 16 * x1 + x0
           in if n < 256 then Some (char_of n) else None)
      | _ \<Rightarrow> None)"

text \<open>\<open>scanstring\<close> reads the text after an opening quote up to the closing one.\<close>

fun scanstring :: "string \<Rightarrow> py_error + (string \<times> string)" where
  "scanstring [] = Inl JSONDecodeError"
| "scanstring (c # cs) =
     (if c = dq then Inr ([], cs)
      else if c = backslash then
        (case cs of
           [] \<Rightarrow> Inl JSONDecodeError
         | e # r \<Rightarrow>
             if e = CHR ''u'' then
               (case r of
                  a # b # h # l # r' \<Rightarrow>
                    (case hex4 a b h l of
                       None \<Rightarrow> Inl JSONDecodeError
                     | Some u \<Rightarrow> prepend u (scanstring r'))
                | _ \<Rightarrow> Inl JSONDecodeError)
             else
               (case unescape e of
                  None \<Rightarrow> Inl JSONDecodeError
                | Some u \<Rightarrow> prepend u (scanstring r)))
      else if (of_char c :: nat) < 32 then Inl JSONDecodeError
      else prepend c (scanstring cs))"

fun scan_once :: "nat \<Rightarrow> string \<Rightarrow> py_error + (py \<times> string)"
  and parse_array :: "nat \<Rightarrow> py list \<Rightarrow> string \<Rightarrow> py_error + (py \<times> string)"
  and parse_object :: "nat \<Rightarrow> (string \<times> py) list \<Rightarrow> string \<Rightarrow> py_error + (py \<times> string)"
where
  "scan_once 0 s = Inl RecursionError"
| "scan_once (Suc n) s =
     (case s of
        [] \<Rightarrow> Inl JSONDecodeError
      | c # cs \<Rightarrow>
          if c = dq then and_then (scanstring cs) (\<lambda>(str, r). Inr (PStr str, r))
          else if c = CHR ''{'' then
            (case skip_ws cs of
               [] \<Rightarrow> Inl JSONDecodeError
             | d # r \<Rightarrow> if d = CHR ''}'' then Inr (PDict [], r) else parse_object n [] (d # r))
          else if c = CHR ''['' then
            (case skip_ws cs of
               [] \<Rightarrow> Inl JSONDecodeError
             | d # r \<Rightarrow> if d = CHR '']'' then Inr (PList [], r) else parse_array n [] (d # r))
          else if take 4 s = ''null'' then Inr (PNone, drop 4 s)
          else if take 4 s = ''true'' then Inr (PBool True, drop 4 s)
          else if take 5 s = ''false'' then Inr (PBool False, drop 5 s)
          else if take 3 s = ''NaN'' then Inr (PFloat NaN, drop 3 s)
          else if take 8 s = ''Infinity'' then Inr (PFloat PosInf, drop 8 s)
          else if take 9 s = ''-Infinity'' then Inr (PFloat NegInf, drop 9 s)
          else scan_number s)"
| "parse_array 0 acc s = Inl RecursionError"
| "parse_array (Suc n) acc s =
     (case scan_once n s of
        Inl e \<Rightarrow> Inl e
      | Inr (v, r) \<Rightarrow>
          (case skip_ws r of
             [] \<Rightarrow> Inl JSONDecodeError
           | d # r' \<Rightarrow>
               if d = CHR '']'' then Inr (PList (acc @ [v]), r')
               else if d = CHR '','' then parse_array n (acc @ [v]) (skip_ws r')
               else Inl JSONDecodeError))"
| "parse_object 0 acc s = Inl RecursionError"
| "parse_object (Suc n) acc s =
     (case s of
        [] \<Rightarrow> Inl JSONDecodeError
      | q # cs \<Rightarrow>
          if q \<noteq> dq then Inl JSONDecodeError
          else
            (case scanstring cs of
               Inl e \<Rightarrow> Inl e
             | Inr (key, r) \<Rightarrow>
                 (case skip_ws r of
                    [] \<Rightarrow> Inl JSONDecodeError
                  | colon # r1 \<Rightarrow>
                      if colon \<noteq> CHR '':'' then Inl JSONDecodeError
                      else
                        (case scan_once n (skip_ws r1) of
                           Inl e \<Rightarrow> Inl e
                         | Inr (v, r2) \<Rightarrow>
                             (case skip_ws r2 of
                                [] \<Rightarrow> Inl JSONDecodeError
                              | d # r3 \<Rightarrow>
                                  if d = CHR ''}'' then Inr (PDict (AList.update key v acc), r3)
                                  else if d = CHR '','' then
                                    parse_object n (AList.update key v acc) (skip_ws r3)
                                  else Inl JSONDecodeError)))))"

definition json_loads :: "string \<Rightarrow> py_error + py" where
  "json_loads s =
     (case scan_once (Suc (length s + length s)) (skip_ws s) of
        Inl e \<Rightarrow> Inl e
      | Inr (v, r) \<Rightarrow> if skip_ws r = [] then Inr v else Inl JSONDecodeError)"


section \<open>The save file\<close>

text \<open>
  \<^verbatim>\<open>SAVE_PATH\<close> names one file. The file is missing, or it exists and cannot be read as
  text, or it holds a text. \<open>writable\<close> says whether \<^verbatim>\<open>write_text\<close> succeeds; when it does
  not, it raises \<^verbatim>\<open>OSError\<close>.
\<close>

datatype file_state = Missing | Unreadable | Content string

record disk =
  save_file :: file_state
  writable :: bool

definition path_exists :: "disk \<Rightarrow> bool" where
  "path_exists d = (save_file d \<noteq> Missing)"

definition read_text :: "disk \<Rightarrow> py_error + string" where
  "read_text d = (case save_file d of Content s \<Rightarrow> Inr s | _ \<Rightarrow> Inl OSError)"

definition write_text :: "string \<Rightarrow> disk \<Rightarrow> py_error + disk" where
  "write_text s d = (if writable d then Inr (d\<lparr>save_file := Content s\<rparr>) else Inl OSError)"

definition default_save :: py where
  "default_save =
     PDict [(''chapter'', PInt 1), (''player'', PDict [(''x'', PInt 50), (''y'', PInt 50)])]"

text \<open>
  \<open>load_save\<close>: the \<^verbatim>\<open>try\<close> block reads and decodes the file; \<^verbatim>\<open>except Exception\<close> catches
  whatever either step raises, and the function then falls through to the default record.
\<close>

definition load_save :: "disk \<Rightarrow> py" where
  "load_save d =
     (if path_exists d then
        (case and_then (read_text d) json_loads of
           Inr data \<Rightarrow> data
         | Inl e \<Rightarrow> default_save)
      else default_save)"

definition write_save :: "py \<Rightarrow> disk \<Rightarrow> py_error + disk" where
  "write_save data d = write_text (json_dumps data) d"


section \<open>Scenes and the game\<close>

text \<open>
  \<^verbatim>\<open>pg.Rect\<close> holds four C \<^verbatim>\<open>int\<close>s of 32 bits. \<^verbatim>\<open>move_ip\<close> converts each offset to a C \<^verbatim>\<open>int\<close>,
  which drops the fraction of a float, and adds it; a sum beyond 32 bits wraps around.
  The offsets of the source are floats; the model computes them as exact rationals. The
  float quotient of two integers is the double nearest to the exact quotient. Within the
  range of a C \<^verbatim>\<open>int\<close> two doubles are less than \<open>10^(- 6)\<close> apart, so that the rounding of a
  quotient with denominator 1000 never reaches the next integer, and a quotient beyond that
  range rounds to a double beyond it: the integer that \<^verbatim>\<open>move_ip\<close> adds is the one the model
  adds. C leaves open what the conversion of a float beyond the range of an \<^verbatim>\<open>int\<close> gives; the
  model gives the least \<^verbatim>\<open>int\<close>, as the conversion of the x86 processors does.
\<close>

record rect =
  rect_x :: int
  rect_y :: int
  rect_w :: int
  rect_h :: int

text \<open>The integer part of a rational, as \<^verbatim>\<open>int(x)\<close> and the C conversion take it of a float.\<close>

definition truncate_rat :: "rat \<Rightarrow> int" where
  "truncate_rat q = (if 0 \<le> q then \<lfloor>q\<rfloor> else \<lceil>q\<rceil>)"

definition c_int :: "rat \<Rightarrow> int" where
  "c_int q =
     (let i = truncate_rat q
      in if - 2147483648 \<le> i \<and> i < 2147483648 then i else - 2147483648)"

definition wrap_int32 :: "int \<Rightarrow> int" where
  "wrap_int32 i = (i + 2147483648) mod 4294967296 - 2147483648"

definition move_ip :: "rect \<Rightarrow> rat \<Rightarrow> rat \<Rightarrow> rect" where
  "move_ip r dx dy =
     r\<lparr>rect_x := wrap_int32 (rect_x r + c_int dx), rect_y := wrap_int32 (rect_y r + c_int dy)\<rparr>"

text \<open>The keys that \<^verbatim>\<open>update\<close> reads from \<^verbatim>\<open>pg.key.get_pressed()\<close>.\<close>

record keys =
  K_ESCAPE :: bool
  K_a :: bool
  K_d :: bool
  K_w :: bool
  K_s :: bool

text \<open>
  A scene is an instance of \<^verbatim>\<open>TitleScene\<close> or of \<^verbatim>\<open>ChapterScene\<close> or one of its four
  subclasses; \<open>cls\<close> is the class of a chapter instance. An attribute that only \<^verbatim>\<open>start\<close>
  assigns is \<open>None\<close> before. The back-reference \<^verbatim>\<open>scene.game\<close> is the game state that
  every method of the model takes as an argument. The methods are called as the game
  calls them, on its own scene: \<open>self\<close> is the scene of the game state.
\<close>

datatype chapter_class = ChapterScene_class | ChapterOne | ChapterTwo | ChapterThree | ChapterFour

record TitleScene =
  timer :: "int option"

record ChapterScene =
  cls :: chapter_class
  chapter_no :: py
  player :: rect
  speed :: int
  world_color :: "(py \<times> py \<times> py) option"

datatype scene = Title TitleScene | Chapter ChapterScene

text \<open>
  \<open>calls\<close> is not in the source: it logs every call of \<^verbatim>\<open>start\<close> and \<^verbatim>\<open>stop\<close> with the
  scene it is called on, in the order of the calls. \<open>disk\<close> is the file that
  \<^verbatim>\<open>write_save\<close> writes.
\<close>

datatype call = Start scene | Stop scene

record game =
  save :: py
  scene :: scene
  disk :: disk
  calls :: "call list"

definition ChapterScene_init :: "chapter_class \<Rightarrow> py \<Rightarrow> ChapterScene" where
  "ChapterScene_init k ch =
     \<lparr>cls = k, chapter_no = ch,
      player = \<lparr>rect_x = 50, rect_y = 50, rect_w = 16, rect_h = 24\<rparr>,
      speed = 120, world_color = None\<rparr>"

text \<open>
  \<^verbatim>\<open>mapping.get(ch, ChapterScene)\<close> hashes \<open>ch\<close>, which a list or a dictionary refuses, and
  compares it with the keys 1 to 4; \<^verbatim>\<open>True\<close> and the float \<^verbatim>\<open>1.0\<close> equal 1 in Python, and a
  float equals the integer of its value.
\<close>

definition hashable :: "py \<Rightarrow> bool" where
  "hashable v = (case v of PList vs \<Rightarrow> False | PDict kvs \<Rightarrow> False | _ \<Rightarrow> True)"

definition mapping_get :: "py \<Rightarrow> chapter_class" where
  "mapping_get ch =
     (if ch = PInt 1 \<or> ch = PBool True \<or> ch = PFloat (Finite 1) then ChapterOne
      else if ch = PInt 2 \<or> ch = PFloat (Finite 2) then ChapterTwo
      else if ch = PInt 3 \<or> ch = PFloat (Finite 3) then ChapterThree
      else if ch = PInt 4 \<or> ch = PFloat (Finite 4) then ChapterFour
      else ChapterScene_class)"

definition ChapterScene_make :: "py \<Rightarrow> py_error + ChapterScene" where
  "ChapterScene_make ch =
     (if hashable ch then Inr (ChapterScene_init (mapping_get ch) ch) else Inl TypeError)"

definition TitleScene_start :: "TitleScene \<Rightarrow> TitleScene" where
  "TitleScene_start self = self\<lparr>timer := Some 0\<rparr>"

definition ChapterScene_start :: "ChapterScene \<Rightarrow> py_error + ChapterScene" where
  "ChapterScene_start self =
     and_then (py_int_mul 50 (chapter_no self)) (\<lambda>r.
     and_then (py_int_mul 20 (chapter_no self)) (\<lambda>g.
     and_then (py_int_mul 60 (chapter_no self)) (\<lambda>b.
       Inr (self\<lparr>world_color := Some (r, g, b)\<rparr>))))"

text \<open>
  \<open>ChapterScene_stop\<close>: the three assignments into the save data, then \<^verbatim>\<open>write_save\<close>.
  \<^verbatim>\<open>save["player"]["x"] = v\<close> changes the inner dictionary in place, so the outer one
  shows the change under the same key.
\<close>

definition ChapterScene_stop :: "ChapterScene \<Rightarrow> game \<Rightarrow> py_error + game" where
  "ChapterScene_stop self g =
     and_then (py_setitem (save g) ''chapter'' (chapter_no self)) (\<lambda>s1.
     and_then (py_getitem s1 ''player'') (\<lambda>p.
     and_then (py_setitem p ''x'' (PInt (rect_x (player self)))) (\<lambda>p1.
     and_then (py_setitem s1 ''player'' p1) (\<lambda>s2.
     and_then (py_getitem s2 ''player'') (\<lambda>q.
     and_then (py_setitem q ''y'' (PInt (rect_y (player self)))) (\<lambda>q1.
     and_then (py_setitem s2 ''player'' q1) (\<lambda>s3.
     and_then (write_save s3 (disk g)) (\<lambda>d.
       Inr (g\<lparr>save := s3, disk := d\<rparr>)))))))))"

text \<open>The dynamic dispatch of \<^verbatim>\<open>self.scene.stop()\<close> and \<^verbatim>\<open>self.scene.start()\<close>.\<close>

definition dispatch_stop :: "game \<Rightarrow> py_error + game" where
  "dispatch_stop g =
     (let g1 = g\<lparr>calls := calls g @ [Stop (scene g)]\<rparr> in
      case scene g of
        Title t \<Rightarrow> Inr g1
      | Chapter c \<Rightarrow> ChapterScene_stop c g1)"

definition dispatch_start :: "game \<Rightarrow> py_error + game" where
  "dispatch_start g =
     (let g1 = g\<lparr>calls := calls g @ [Start (scene g)]\<rparr> in
      case scene g of
        Title t \<Rightarrow> Inr (g1\<lparr>scene := Title (TitleScene_start t)\<rparr>)
      | Chapter c \<Rightarrow> and_then (ChapterScene_start c) (\<lambda>c1. Inr (g1\<lparr>scene := Chapter c1\<rparr>)))"

definition change_scene :: "scene \<Rightarrow> game \<Rightarrow> py_error + game" where
  "change_scene new_scene g =
     and_then (dispatch_stop g) (\<lambda>g1. dispatch_start (g1\<lparr>scene := new_scene\<rparr>))"

text \<open>\<open>DeltaGame_init\<close>: the constructor keeps the save data and starts a title scene.\<close>

definition DeltaGame_init :: "py \<Rightarrow> disk \<Rightarrow> py_error + game" where
  "DeltaGame_init save_data d =
     dispatch_start \<lparr>save = save_data, scene = Title \<lparr>timer = None\<rparr>, disk = d, calls = []\<rparr>"

definition TitleScene_update :: "TitleScene \<Rightarrow> int \<Rightarrow> game \<Rightarrow> py_error + game" where
  "TitleScene_update self dt g =
     (case timer self of
        None \<Rightarrow> Inl AttributeError
      | Some t \<Rightarrow>
          (let g1 = g\<lparr>scene := Title (self\<lparr>timer := Some (t + dt)\<rparr>)\<rparr> in
           if t + dt > 2000 then
             and_then (py_getitem (save g1) ''chapter'') (\<lambda>saved_ch.
             and_then (ChapterScene_make saved_ch) (\<lambda>new_scene.
               change_scene (Chapter new_scene) g1))
           else Inr g1))"

text \<open>
  \<open>ChapterScene_update\<close>: after \<^verbatim>\<open>change_scene\<close> on Escape the method goes on and moves the
  rectangle of \<open>self\<close>, which is then no longer the scene of the game.
\<close>

definition ChapterScene_update :: "ChapterScene \<Rightarrow> int \<Rightarrow> keys \<Rightarrow> game \<Rightarrow> py_error + game" where
  "ChapterScene_update self dt ks g =
     and_then (if K_ESCAPE ks then change_scene (Title \<lparr>timer = None\<rparr>) g else Inr g) (\<lambda>g1.
       let step = of_int (speed self * dt) / 1000;
           dx0 = 0;
           dy0 = 0;
           dx1 = (if K_a ks then dx0 - step else dx0);
           dx2 = (if K_d ks then dx1 + step else dx1);
           dy1 = (if K_w ks then dy0 - step else dy0);
           dy2 = (if K_s ks then dy1 + step else dy1);
           moved = self\<lparr>player := move_ip (player self) dx2 dy2\<rparr>
       in Inr (if K_ESCAPE ks then g1 else g1\<lparr>scene := Chapter moved\<rparr>))"

definition dispatch_update :: "int \<Rightarrow> keys \<Rightarrow> game \<Rightarrow> py_error + game" where
  "dispatch_update dt ks g =
     (case scene g of
        Title t \<Rightarrow> TitleScene_update t dt g
      | Chapter c \<Rightarrow> ChapterScene_update c dt ks g)"

text \<open>
  The calls of \<^verbatim>\<open>self.scene.update(dt)\<close> that \<^verbatim>\<open>run\<close> makes, one per frame, for the frames
  given as the time step and the keys of each, without the drawing between them.
\<close>

fun run_updates :: "(int \<times> keys) list \<Rightarrow> game \<Rightarrow> py_error + game" where
  "run_updates [] g = Inr g"
| "run_updates ((dt, ks) # frames) g = and_then (dispatch_update dt ks g) (run_updates frames)"

text \<open>
  Drawing. \<^verbatim>\<open>surf.fill(color)\<close> takes a tuple of three components and raises \<^verbatim>\<open>ValueError\<close>
  unless each of them is a number whose integer part, as \<^verbatim>\<open>int(x)\<close> gives it, is in the range
  from 0 to 255; an infinity and the float that is not a number have no integer part.
  The pixels of the screen are not modelled: a drawing method raises or returns.
\<close>

definition color_component :: "py \<Rightarrow> int option" where
  "color_component v =
     (case v of
        PInt i \<Rightarrow> Some i
      | PBool b \<Rightarrow> Some (if b then 1 else 0)
      | PFloat x \<Rightarrow>
          (case x of Finite q \<Rightarrow> Some (truncate_rat q) | NegZero \<Rightarrow> Some 0 | _ \<Rightarrow> None)
      | _ \<Rightarrow> None)"

definition valid_component :: "py \<Rightarrow> bool" where
  "valid_component v = (case color_component v of None \<Rightarrow> False | Some i \<Rightarrow> 0 \<le> i \<and> i \<le> 255)"

definition surf_fill :: "py \<times> py \<times> py \<Rightarrow> py_error + unit" where
  "surf_fill color =
     (case color of (r, g, b) \<Rightarrow>
        if valid_component r \<and> valid_component g \<and> valid_component b then Inr ()
        else Inl ValueError)"

text \<open>
  \<open>TitleScene_draw\<close> fills the screen with a constant colour and renders a constant text.
  \<open>ChapterScene_draw\<close> fills it with \<open>world_color\<close>, an attribute that only \<^verbatim>\<open>start\<close> assigns,
  draws the rectangle and renders the chapter number. When the fill has accepted the
  colour, the chapter number is an integer, a boolean or a float, and its text renders.
\<close>

definition TitleScene_draw :: "TitleScene \<Rightarrow> py_error + unit" where
  "TitleScene_draw self = Inr ()"

definition ChapterScene_draw :: "ChapterScene \<Rightarrow> py_error + unit" where
  "ChapterScene_draw self =
     (case world_color self of
        None \<Rightarrow> Inl AttributeError
      | Some color \<Rightarrow> surf_fill color)"

definition dispatch_draw :: "game \<Rightarrow> py_error + unit" where
  "dispatch_draw g =
     (case scene g of
        Title t \<Rightarrow> TitleScene_draw t
      | Chapter c \<Rightarrow> ChapterScene_draw c)"

text \<open>
  The frames of \<^verbatim>\<open>run\<close>: in each the scene of the game is updated, and the scene that the
  game has after the update is drawn. The event queue and the clock are not modelled beyond
  the time step and the keys that they give each frame.
\<close>

fun run_frames :: "(int \<times> keys) list \<Rightarrow> game \<Rightarrow> py_error + game" where
  "run_frames [] g = Inr g"
| "run_frames ((dt, ks) # frames) g =
     and_then (dispatch_update dt ks g) (\<lambda>g1.
     and_then (dispatch_draw g1) (\<lambda>u. run_frames frames g1))"


section \<open>Notions of the specification\<close>

text \<open>
  A SaveRecord of the specification with integer fields: a chapter and the two coordinates
  of the player, as the dictionary that the source builds for its default.
\<close>

definition save_record :: "int \<Rightarrow> int \<Rightarrow> int \<Rightarrow> py" where
  "save_record c px py =
     PDict [(''chapter'', PInt c), (''player'', PDict [(''x'', PInt px), (''y'', PInt py)])]"

text \<open>The text that \<open>json_dumps\<close> produces for such a record.\<close>

definition save_text :: "int \<Rightarrow> int \<Rightarrow> int \<Rightarrow> string" where
  "save_text c px py =
     ''{'' @ [newline] @ ''  '' @ [dq] @ ''chapter'' @ [dq] @ '': '' @ show_int c @ '','' @ [newline]
     @ ''  '' @ [dq] @ ''player'' @ [dq] @ '': {'' @ [newline]
     @ ''    '' @ [dq] @ ''x'' @ [dq] @ '': '' @ show_int px @ '','' @ [newline]
     @ ''    '' @ [dq] @ ''y'' @ [dq] @ '': '' @ show_int py @ [newline]
     @ ''  }'' @ [newline] @ ''}''"

text \<open>Side conditions of the scanner lemmas.\<close>

definition number_ends :: "string \<Rightarrow> bool" where
  "number_ends r =
     (case r of
        [] \<Rightarrow> True
      | c # cs \<Rightarrow> \<not> is_digit c \<and> c \<noteq> CHR ''.'' \<and> c \<noteq> CHR ''e'' \<and> c \<noteq> CHR ''E'')"

definition starts_number :: "char \<Rightarrow> bool" where
  "starts_number c = (c = CHR ''-'' \<or> is_digit c)"


text \<open>
  The chapter and the position that a save record holds, read with the subscripts of the
  source: \<^verbatim>\<open>save["chapter"]\<close>, \<^verbatim>\<open>save["player"]["x"]\<close> and \<^verbatim>\<open>save["player"]["y"]\<close>.
\<close>

definition saved_chapter :: "py \<Rightarrow> py_error + py" where
  "saved_chapter v = py_getitem v ''chapter''"

definition saved_position :: "py \<Rightarrow> py_error + (py \<times> py)" where
  "saved_position v =
     and_then (py_getitem v ''player'') (\<lambda>p.
     and_then (py_getitem p ''x'') (\<lambda>px.
     and_then (py_getitem p ''y'') (\<lambda>py. Inr (px, py))))"

text \<open>
  The shape of a SaveRecord in its widest reading: a chapter that the factory maps to a
  scene, and a player with two coordinates that are numbers, integers or floats.
\<close>

definition is_number :: "py \<Rightarrow> bool" where
  "is_number v = (case v of PInt i \<Rightarrow> True | PFloat x \<Rightarrow> True | _ \<Rightarrow> False)"

definition save_record_shape :: "py \<Rightarrow> bool" where
  "save_record_shape v =
     (case saved_chapter v of
        Inl e \<Rightarrow> False
      | Inr ch \<Rightarrow>
          (case ChapterScene_make ch of
             Inl e \<Rightarrow> False
           | Inr new_scene \<Rightarrow>
               (case saved_position v of
                  Inl e \<Rightarrow> False
                | Inr (px, py) \<Rightarrow> is_number px \<and> is_number py)))"

text \<open>The position of the entity of the active scene, when that is a chapter scene.\<close>

definition entity_position :: "game \<Rightarrow> (int \<times> int) option" where
  "entity_position g =
     (case scene g of
        Title t \<Rightarrow> None
      | Chapter c \<Rightarrow> Some (rect_x (player c), rect_y (player c)))"

definition no_keys :: keys where
  "no_keys = \<lparr>K_ESCAPE = False, K_a = False, K_d = False, K_w = False, K_s = False\<rparr>"

text \<open>The mapping of the scene factory as the specification words it.\<close>

definition chapter_class_of :: "int \<Rightarrow> chapter_class" where
  "chapter_class_of n =
     (if n = 1 then ChapterOne
      else if n = 2 then ChapterTwo
      else if n = 3 then ChapterThree
      else if n = 4 then ChapterFour
      else ChapterScene_class)"

text \<open>A chapter scene of class \<open>k\<close> for the integer chapter \<open>n\<close>, after its \<^verbatim>\<open>start\<close>.\<close>

definition started :: "chapter_class \<Rightarrow> int \<Rightarrow> ChapterScene" where
  "started k n =
     (ChapterScene_init k (PInt n))
       \<lparr>world_color := Some (PInt (50 * n), PInt (20 * n), PInt (60 * n))\<rparr>"

text \<open>
  The offset along one axis that \<open>ChapterScene_update\<close> computes from the key of the
  negative direction, the key of the positive direction and the step of the frame.
\<close>

definition axis_offset :: "bool \<Rightarrow> bool \<Rightarrow> rat \<Rightarrow> rat" where
  "axis_offset neg pos step =
     (if pos then (if neg then 0 - step else 0) + step else (if neg then 0 - step else 0))"

text \<open>
  What \<open>ChapterScene_stop\<close> needs of the save data, a dictionary with a dictionary
  under \<^verbatim>\<open>"player"\<close>, and what \<^verbatim>\<open>start\<close> needs of a scene: a chapter scene multiplies its
  chapter number, which \<^verbatim>\<open>None\<close> and a dictionary refuse.
\<close>

definition has_player_dict :: "py \<Rightarrow> bool" where
  "has_player_dict v =
     (case v of
        PDict kvs \<Rightarrow> (case map_of kvs ''player'' of Some (PDict pkvs) \<Rightarrow> True | _ \<Rightarrow> False)
      | _ \<Rightarrow> False)"

definition can_start :: "scene \<Rightarrow> bool" where
  "can_start s =
     (case s of
        Title t \<Rightarrow> True
      | Chapter c \<Rightarrow> (case chapter_no c of PNone \<Rightarrow> False | PDict kvs \<Rightarrow> False | _ \<Rightarrow> True))"

text \<open>
  Forgetting the class of every chapter scene in a game state, in the active scene and in
  the log. Two states that agree after it differ in class tags only.
\<close>

fun forget_scene :: "scene \<Rightarrow> scene" where
  "forget_scene (Title t) = Title t"
| "forget_scene (Chapter c) = Chapter (c\<lparr>cls := ChapterScene_class\<rparr>)"

fun forget_call :: "call \<Rightarrow> call" where
  "forget_call (Start s) = Start (forget_scene s)"
| "forget_call (Stop s) = Stop (forget_scene s)"

definition forget_class :: "game \<Rightarrow> game" where
  "forget_class g = g\<lparr>scene := forget_scene (scene g), calls := map forget_call (calls g)\<rparr>"


section \<open>Integers survive printing and scanning\<close>

lemma of_char_digit_char: "n < 10 \<Longrightarrow> (of_char (digit_char n) :: nat) = 48 + n"
  by (simp add: digit_char_def)

lemma is_digit_digit_char: "n < 10 \<Longrightarrow> is_digit (digit_char n)"
  by (simp add: is_digit_def of_char_digit_char)

lemma digit_val_digit_char: "n < 10 \<Longrightarrow> digit_val (digit_char n) = n"
  by (simp add: digit_val_def of_char_digit_char)

lemma digit_char_0: "digit_char 0 = CHR ''0''"
  by code_simp

lemma digit_char_zero: "n < 10 \<Longrightarrow> digit_char n = CHR ''0'' \<longleftrightarrow> n = 0"
proof -
  assume n: "n < 10"
  have z: "(of_char (CHR ''0'') :: nat) = 48" by simp
  show ?thesis
  proof
    assume "digit_char n = CHR ''0''"
    then have "(of_char (digit_char n) :: nat) = 48" using z by simp
    with n show "n = 0" by (simp add: of_char_digit_char)
  next
    assume "n = 0"
    then show "digit_char n = CHR ''0''" using digit_char_0 by simp
  qed
qed

lemma show_nat_digits: "\<forall>c \<in> set (show_nat n). is_digit c"
proof (induction n rule: show_nat.induct)
  case (1 n)
  show ?case
  proof (cases "n < 10")
    case True
    then show ?thesis by (simp add: show_nat.simps [of n] is_digit_digit_char)
  next
    case False
    then show ?thesis using 1 by (simp add: show_nat.simps [of n] is_digit_digit_char)
  qed
qed

lemma show_nat_nonempty: "show_nat n \<noteq> []"
  by (simp add: show_nat.simps [of n])

lemma hd_show_nat: "0 < n \<Longrightarrow> hd (show_nat n) \<noteq> CHR ''0''"
proof (induction n rule: show_nat.induct)
  case (1 n)
  show ?case
  proof (cases "n < 10")
    case True
    with 1 show ?thesis by (simp add: show_nat.simps [of n] digit_char_zero)
  next
    case False
    then have "0 < n div 10" by simp
    with False 1 show ?thesis by (simp add: show_nat.simps [of n] show_nat_nonempty)
  qed
qed

lemma digits_val_snoc: "digits_val (ds @ [c]) = 10 * digits_val ds + digit_val c"
  by (simp add: digits_val_def)

lemma digits_val_show_nat: "digits_val (show_nat n) = n"
proof (induction n rule: show_nat.induct)
  case (1 n)
  show ?case
  proof (cases "n < 10")
    case True
    then show ?thesis by (simp add: show_nat.simps [of n] digits_val_def digit_val_digit_char)
  next
    case False
    then show ?thesis using 1
      by (simp add: show_nat.simps [of n] digits_val_snoc digit_val_digit_char)
  qed
qed

lemma takeWhile_show_nat:
  "number_ends r \<Longrightarrow> takeWhile is_digit (show_nat n @ r) = show_nat n"
  using show_nat_digits [of n]
  by (cases r) (simp_all add: number_ends_def takeWhile_append2)

lemma dropWhile_show_nat:
  "number_ends r \<Longrightarrow> dropWhile is_digit (show_nat n @ r) = r"
  using show_nat_digits [of n]
  by (cases r) (simp_all add: number_ends_def dropWhile_append2)

lemma show_nat_0: "show_nat 0 = ''0''"
  by (simp add: show_nat.simps [of 0] digit_char_0)

lemma scan_natural_show_nat:
  assumes "number_ends r"
  shows "scan_natural (show_nat n @ r) = Inr (n, r)"
proof (cases "n = 0")
  case True
  then show ?thesis by (simp add: show_nat_0 scan_natural_def)
next
  case False
  obtain c cs where cs: "show_nat n = c # cs"
    using show_nat_nonempty [of n] by (cases "show_nat n") auto
  have "c \<noteq> CHR ''0''" using hd_show_nat [of n] False cs by simp
  moreover have "is_digit c" using show_nat_digits [of n] cs by simp
  ultimately have "scan_natural (show_nat n @ r)
      = Inr (digits_val (takeWhile is_digit (show_nat n @ r)), dropWhile is_digit (show_nat n @ r))"
    by (simp add: scan_natural_def cs)
  then show ?thesis
    by (simp add: takeWhile_show_nat dropWhile_show_nat digits_val_show_nat assms)
qed

lemma is_digit_not_minus: "is_digit c \<Longrightarrow> c \<noteq> CHR ''-''"
  by (auto simp: is_digit_def)

lemma scan_fraction_number_ends: "number_ends r \<Longrightarrow> scan_fraction r = ([], r)"
  by (auto simp: number_ends_def scan_fraction_def split: list.splits)

lemma scan_exponent_number_ends: "number_ends r \<Longrightarrow> scan_exponent r = (None, r)"
  by (auto simp: number_ends_def scan_exponent_def split: list.splits)

lemma scan_number_show_int:
  assumes "number_ends r"
  shows "scan_number (show_int i @ r) = Inr (PInt i, r)"
proof (cases "i < 0")
  case True
  then show ?thesis
    by (simp add: show_int_def scan_number_def scan_natural_show_nat assms and_then_def
        scan_fraction_number_ends scan_exponent_number_ends)
next
  case False
  obtain c cs where cs: "show_nat (nat i) = c # cs"
    using show_nat_nonempty [of "nat i"] by (cases "show_nat (nat i)") auto
  have "is_digit c" using show_nat_digits [of "nat i"] cs by simp
  then have m: "c \<noteq> CHR ''-''" by (rule is_digit_not_minus)
  have sn: "scan_natural (c # cs @ r) = Inr (nat i, r)"
    using scan_natural_show_nat [OF assms, of "nat i"] by (simp add: cs)
  from False m show ?thesis
    by (simp add: show_int_def scan_number_def cs sn and_then_def
        scan_fraction_number_ends [OF assms] scan_exponent_number_ends [OF assms])
qed

lemma show_int_Cons:
  "\<exists>c cs. show_int i = c # cs \<and> starts_number c
     \<and> (c = CHR ''-'' \<longrightarrow> (\<exists>d ds. cs = d # ds \<and> d \<noteq> CHR ''I''))"
proof (cases "i < 0")
  case True
  obtain c cs where cs: "show_nat (nat (- i)) = c # cs"
    using show_nat_nonempty [of "nat (- i)"] by (cases "show_nat (nat (- i))") auto
  have "is_digit c" using show_nat_digits [of "nat (- i)"] cs by simp
  then have "c \<noteq> CHR ''I''" by (auto simp: is_digit_def)
  with True cs show ?thesis by (simp add: show_int_def starts_number_def)
next
  case False
  obtain c cs where cs: "show_nat (nat i) = c # cs"
    using show_nat_nonempty [of "nat i"] by (cases "show_nat (nat i)") auto
  have d: "is_digit c" using show_nat_digits [of "nat i"] cs by simp
  then have "c \<noteq> CHR ''-''" by (rule is_digit_not_minus)
  with False cs d show ?thesis by (simp add: show_int_def starts_number_def)
qed

lemma starts_number_facts:
  assumes "starts_number c"
  shows "c \<noteq> dq" "c \<noteq> CHR ''{''" "c \<noteq> CHR ''[''" "c \<noteq> CHR ''n''" "c \<noteq> CHR ''t''"
    "c \<noteq> CHR ''f''" "\<not> is_ws c" "c \<noteq> CHR ''N''" "c \<noteq> CHR ''I''"
  using assms by (auto simp: starts_number_def is_digit_def is_ws_def)

lemma skip_ws_show_int: "skip_ws (show_int i @ r) = show_int i @ r"
proof -
  obtain c cs where cs: "show_int i = c # cs" and sn: "starts_number c"
    using show_int_Cons [of i] by blast
  show ?thesis using starts_number_facts(7) [OF sn] by (simp add: skip_ws_def cs)
qed

lemma scan_once_show_int:
  assumes "number_ends r"
  shows "scan_once (Suc n) (show_int i @ r) = Inr (PInt i, r)"
proof -
  obtain c cs where cs: "show_int i = c # cs" and sn: "starts_number c"
    and nI: "c = CHR ''-'' \<longrightarrow> (\<exists>d ds. cs = d # ds \<and> d \<noteq> CHR ''I'')"
    using show_int_Cons [of i] by blast
  have "scan_once (Suc n) (c # cs @ r) = scan_number (c # cs @ r)"
  proof (cases "c = CHR ''-''")
    case True
    with nI obtain d ds where "cs = d # ds" and "d \<noteq> CHR ''I''" by blast
    with True show ?thesis by simp
  next
    case False
    with starts_number_facts [OF sn] show ?thesis by simp
  qed
  then have "scan_once (Suc n) (show_int i @ r) = scan_number (show_int i @ r)"
    by (simp add: cs)
  then show ?thesis by (simp add: scan_number_show_int assms)
qed

lemma json_dumps_save_record:
  "json_dumps (save_record c px py) = save_text c px py"
  by (simp add: json_dumps_def save_record_def save_text_def newline_indent_def
      encode_basestring_ascii_def escape_char_def eval_nat_numeral)

lemma skip_ws_Nil: "skip_ws [] = []"
  by (simp add: skip_ws_def)

lemma skip_ws_Cons: "skip_ws (c # cs) = (if is_ws c then skip_ws cs else c # cs)"
  by (simp add: skip_ws_def)

lemma scan_once_Cons:
  "scan_once (Suc n) (c # cs) =
     (if c = dq then and_then (scanstring cs) (\<lambda>(str, r). Inr (PStr str, r))
      else if c = CHR ''{'' then
        (case skip_ws cs of
           [] \<Rightarrow> Inl JSONDecodeError
         | d # r \<Rightarrow> if d = CHR ''}'' then Inr (PDict [], r) else parse_object n [] (d # r))
      else if c = CHR ''['' then
        (case skip_ws cs of
           [] \<Rightarrow> Inl JSONDecodeError
         | d # r \<Rightarrow> if d = CHR '']'' then Inr (PList [], r) else parse_array n [] (d # r))
      else if take 4 (c # cs) = ''null'' then Inr (PNone, drop 4 (c # cs))
      else if take 4 (c # cs) = ''true'' then Inr (PBool True, drop 4 (c # cs))
      else if take 5 (c # cs) = ''false'' then Inr (PBool False, drop 5 (c # cs))
      else if take 3 (c # cs) = ''NaN'' then Inr (PFloat NaN, drop 3 (c # cs))
      else if take 8 (c # cs) = ''Infinity'' then Inr (PFloat PosInf, drop 8 (c # cs))
      else if take 9 (c # cs) = ''-Infinity'' then Inr (PFloat NegInf, drop 9 (c # cs))
      else scan_number (c # cs))"
  by simp

lemma json_loads_save_text:
  "json_loads (save_text c px py) = Inr (save_record c px py)"
  by (simp add: save_text_def save_record_def json_loads_def skip_ws_show_int scan_once_show_int
      scan_once_Cons skip_ws_Nil skip_ws_Cons
      number_ends_def is_digit_def is_ws_def and_then_def prepend_def
      del: scan_once.simps(2))


section \<open>The decoder consumes its input and has fuel enough\<close>

lemma length_skip_ws: "length (skip_ws s) \<le> length s"
  by (simp add: skip_ws_def length_dropWhile_le)

lemma skip_ws_Cons_length: "skip_ws r = d # r' \<Longrightarrow> length r' < length r"
  using length_skip_ws [of r] by simp

lemma prepend_Inr:
  "prepend c m = Inr (str, r) \<Longrightarrow> \<exists>str'. m = Inr (str', r)"
  by (cases m) (auto simp: prepend_def and_then_def)

lemma prepend_Inl: "prepend c m = Inl e \<Longrightarrow> m = Inl e"
  by (cases m) (auto simp: prepend_def and_then_def)

lemma scanstring_length: "scanstring s = Inr (str, r) \<Longrightarrow> length r < length s"
proof (induction s arbitrary: str rule: length_induct)
  case (1 s)
  show ?case
  proof (cases s)
    case Nil
    with 1 show ?thesis by simp
  next
    case (Cons c cs)
    show ?thesis
    proof (cases "c = dq")
      case True
      with 1 Cons show ?thesis by simp
    next
      case ndq: False
      show ?thesis
      proof (cases "c = backslash")
        case False
        with ndq 1(2) Cons obtain str' where "scanstring cs = Inr (str', r)"
          by (auto split: if_splits dest: prepend_Inr)
        with 1(1) Cons have "length r < length cs" by simp
        with Cons show ?thesis by simp
      next
        case True
        from 1(2) Cons ndq True obtain e t where cs: "cs = e # t"
          by (cases cs) auto
        show ?thesis
        proof (cases "e = CHR ''u''")
          case False
          with 1(2) Cons ndq True cs obtain str' where "scanstring t = Inr (str', r)"
            by (auto split: option.splits dest: prepend_Inr)
          with 1(1) Cons cs have "length r < length t" by simp
          with Cons cs show ?thesis by simp
        next
          case u: True
          with 1(2) Cons ndq True cs obtain a b h l t' where t: "t = a # b # h # l # t'"
            by (auto split: list.splits)
          with 1(2) Cons ndq True cs u obtain str' where "scanstring t' = Inr (str', r)"
            by (auto split: option.splits dest: prepend_Inr)
          with 1(1) Cons cs t have "length r < length t'" by simp
          with Cons cs t show ?thesis by simp
        qed
      qed
    qed
  qed
qed

lemma scanstring_error: "scanstring s = Inl e \<Longrightarrow> e = JSONDecodeError"
proof (induction s rule: length_induct)
  case (1 s)
  have IH: "\<And>ys. length ys < length s \<Longrightarrow> scanstring ys = Inl e \<Longrightarrow> e = JSONDecodeError"
    using 1(1) by blast
  show ?case
  proof (cases s)
    case Nil
    with 1 show ?thesis by simp
  next
    case (Cons c cs)
    show ?thesis
    proof (cases "c = dq")
      case True
      with 1 Cons show ?thesis by simp
    next
      case ndq: False
      show ?thesis
      proof (cases "c = backslash")
        case False
        show ?thesis
        proof (cases "(of_char c :: nat) < 32")
          case True
          with 1(2) Cons ndq False show ?thesis by simp
        next
          case nc: False
          with 1(2) Cons ndq False have "scanstring cs = Inl e"
            by (auto dest: prepend_Inl)
          then show ?thesis using IH [of cs] Cons by simp
        qed
      next
        case True
        show ?thesis
        proof (cases cs)
          case Nil
          with 1(2) Cons ndq True show ?thesis by simp
        next
          case cs: (Cons e' t)
          show ?thesis
          proof (cases "e' = CHR ''u''")
            case False
            show ?thesis
            proof (cases "unescape e'")
              case None
              with 1(2) Cons ndq True cs False show ?thesis by simp
            next
              case (Some v)
              with 1(2) Cons ndq True cs False have "scanstring t = Inl e"
                by (auto dest: prepend_Inl)
              then show ?thesis using IH [of t] Cons cs by simp
            qed
          next
            case u: True
            show ?thesis
            proof (cases "\<exists>a b h l t'. t = a # b # h # l # t'")
              case False
              with 1(2) Cons ndq True cs u show ?thesis
                by (auto split: list.splits)
            next
              case True
              then obtain a b h l t' where t: "t = a # b # h # l # t'" by blast
              show ?thesis
              proof (cases "hex4 a b h l")
                case None
                with 1(2) Cons ndq \<open>c = backslash\<close> cs u t show ?thesis by simp
              next
                case (Some v)
                with 1(2) Cons ndq \<open>c = backslash\<close> cs u t have "scanstring t' = Inl e"
                  by (auto dest: prepend_Inl)
                then show ?thesis using IH [of t'] Cons cs t by simp
              qed
            qed
          qed
        qed
      qed
    qed
  qed
qed

lemma scan_natural_length: "scan_natural s = Inr (n, r) \<Longrightarrow> length r < length s"
proof (cases s)
  case Nil
  assume "scan_natural s = Inr (n, r)"
  with Nil show ?thesis by (simp add: scan_natural_def)
next
  case (Cons c cs)
  assume a: "scan_natural s = Inr (n, r)"
  show ?thesis
  proof (cases "c = CHR ''0''")
    case True
    with a Cons show ?thesis by (simp add: scan_natural_def)
  next
    case False
    with a Cons have d: "is_digit c" and r: "r = dropWhile is_digit s"
      by (auto simp: scan_natural_def split: if_splits)
    from d Cons have "dropWhile is_digit s = dropWhile is_digit cs" by simp
    with r Cons show ?thesis
      using length_dropWhile_le [of is_digit cs] by simp
  qed
qed

lemma scan_natural_error: "scan_natural s = Inl e \<Longrightarrow> e = JSONDecodeError"
  by (auto simp: scan_natural_def split: list.splits if_splits)

lemma scan_fraction_length: "length (snd (scan_fraction s)) \<le> length s"
  using length_dropWhile_le [of is_digit "tl s"]
  by (auto simp: scan_fraction_def split: list.splits)

lemma scan_exponent_length: "length (snd (scan_exponent s)) \<le> length s"
proof -
  have "length (dropWhile is_digit (tl s)) \<le> length s"
    using length_dropWhile_le [of is_digit "tl s"] by simp
  moreover have "length (dropWhile is_digit (tl (tl s))) \<le> length s"
    using length_dropWhile_le [of is_digit "tl (tl s)"] by simp
  ultimately show ?thesis
    by (auto simp: scan_exponent_def split: list.splits)
qed

lemma scan_number_length: "scan_number s = Inr (v, r) \<Longrightarrow> length r < length s"
proof (cases s)
  case Nil
  assume "scan_number s = Inr (v, r)"
  with Nil show ?thesis by (simp add: scan_number_def)
next
  case (Cons c cs)
  assume a: "scan_number s = Inr (v, r)"
  obtain n r0 where n: "scan_natural (if c = CHR ''-'' then cs else s) = Inr (n, r0)"
    using a Cons by (cases "scan_natural (if c = CHR ''-'' then cs else s)")
      (auto simp: scan_number_def and_then_def Let_def)
  obtain frac r1 where f: "scan_fraction r0 = (frac, r1)" by (cases "scan_fraction r0")
  obtain ex r2 where e: "scan_exponent r1 = (ex, r2)" by (cases "scan_exponent r1")
  have "length r1 \<le> length r0" using scan_fraction_length [of r0] f by simp
  moreover have "length r2 \<le> length r1" using scan_exponent_length [of r1] e by simp
  moreover have "r = r0 \<or> r = r2"
    using a Cons n f e by (auto simp: scan_number_def and_then_def Let_def split: if_splits)
  ultimately have "length r < length (if c = CHR ''-'' then cs else s)"
    using scan_natural_length [OF n] by auto
  with Cons show ?thesis by (simp split: if_splits)
qed

lemma scan_number_error: "scan_number s = Inl e \<Longrightarrow> e = JSONDecodeError"
proof (cases s)
  case Nil
  assume "scan_number s = Inl e"
  with Nil show ?thesis by (simp add: scan_number_def)
next
  case (Cons c cs)
  assume a: "scan_number s = Inl e"
  show ?thesis
  proof (cases "scan_natural (if c = CHR ''-'' then cs else s)")
    case (Inl x)
    with a Cons have "x = e" by (auto simp: scan_number_def and_then_def Let_def)
    with scan_natural_error [OF Inl] show ?thesis by simp
  next
    case (Inr p)
    with a Cons show ?thesis
      by (auto simp: scan_number_def and_then_def Let_def split: prod.splits if_splits)
  qed
qed

lemma literal_rest:
  assumes "take k s = lit" and "length lit = k" and "0 < k"
  shows "length (drop k s) < length s"
proof -
  from assms(1,2) have "k \<le> length s"
    by (metis length_take min.cobounded1 min_def nat_le_linear)
  with assms(3) show ?thesis by simp
qed

lemma consumes:
  "(\<forall>s v r. scan_once n s = Inr (v, r) \<longrightarrow> length r < length s)
   \<and> (\<forall>acc s v r. parse_array n acc s = Inr (v, r) \<longrightarrow> length r < length s)
   \<and> (\<forall>acc s v r. parse_object n acc s = Inr (v, r) \<longrightarrow> length r < length s)"
proof (induction n)
  case 0
  then show ?case by simp
next
  case (Suc n)
  then have so: "\<And>s v r. scan_once n s = Inr (v, r) \<Longrightarrow> length r < length s"
    and pa: "\<And>acc s v r. parse_array n acc s = Inr (v, r) \<Longrightarrow> length r < length s"
    and po: "\<And>acc s v r. parse_object n acc s = Inr (v, r) \<Longrightarrow> length r < length s"
    by blast+
  have 1: "length r < length s" if a: "scan_once (Suc n) s = Inr (v, r)" for s v r
  proof (cases s)
    case Nil
    with a show ?thesis by simp
  next
    case (Cons c cs)
    consider "c = dq" | "c \<noteq> dq" "c = CHR ''{''" | "c \<noteq> dq" "c \<noteq> CHR ''{''" "c = CHR ''[''"
      | "c \<noteq> dq" "c \<noteq> CHR ''{''" "c \<noteq> CHR ''[''" by blast
    then show ?thesis
    proof cases
      case 1
      with a Cons obtain str where "scanstring cs = Inr (str, r)"
        by (auto simp: and_then_def split: sum.splits)
      from scanstring_length [OF this] Cons show ?thesis by simp
    next
      case 2
      show ?thesis
      proof (cases "skip_ws cs")
        case Nil
        with a Cons 2 show ?thesis by simp
      next
        case sk: (Cons d t)
        from skip_ws_Cons_length [OF sk] have lt: "length t < length cs" .
        show ?thesis
        proof (cases "d = CHR ''}''")
          case True
          with a Cons 2 sk lt show ?thesis by simp
        next
          case False
          with a Cons 2 sk have "parse_object n [] (d # t) = Inr (v, r)" by simp
          from po [OF this] lt Cons show ?thesis by simp
        qed
      qed
    next
      case 3
      show ?thesis
      proof (cases "skip_ws cs")
        case Nil
        with a Cons 3 show ?thesis by simp
      next
        case sk: (Cons d t)
        from skip_ws_Cons_length [OF sk] have lt: "length t < length cs" .
        show ?thesis
        proof (cases "d = CHR '']''")
          case True
          with a Cons 3 sk lt show ?thesis by simp
        next
          case False
          with a Cons 3 sk have "parse_array n [] (d # t) = Inr (v, r)" by simp
          from pa [OF this] lt Cons show ?thesis by simp
        qed
      qed
    next
      case 4
      then have "(take 4 s = ''null'' \<and> r = drop 4 s) \<or> (take 4 s = ''true'' \<and> r = drop 4 s)
          \<or> (take 5 s = ''false'' \<and> r = drop 5 s) \<or> (take 3 s = ''NaN'' \<and> r = drop 3 s)
          \<or> (take 8 s = ''Infinity'' \<and> r = drop 8 s)
          \<or> (take 9 s = ''-Infinity'' \<and> r = drop 9 s) \<or> scan_number s = Inr (v, r)"
        using a Cons by (auto simp del: take_Suc_Cons drop_Suc_Cons split: if_splits)
      then show ?thesis
        using literal_rest [of 4 s "''null''"] literal_rest [of 4 s "''true''"]
          literal_rest [of 5 s "''false''"] literal_rest [of 3 s "''NaN''"]
          literal_rest [of 8 s "''Infinity''"] literal_rest [of 9 s "''-Infinity''"]
          scan_number_length [of s v r]
        by auto
    qed
  qed
  have 2: "length r < length s" if a: "parse_array (Suc n) acc s = Inr (v, r)" for acc s v r
  proof -
    from a obtain x t where x: "scan_once n s = Inr (x, t)"
      by (cases "scan_once n s") auto
    from so [OF x] have lt: "length t < length s" .
    from a x obtain d t' where sk: "skip_ws t = d # t'"
      by (cases "skip_ws t") auto
    from skip_ws_Cons_length [OF sk] have lt': "length t' < length t" .
    show ?thesis
    proof (cases "d = CHR '']''")
      case True
      with a x sk lt lt' show ?thesis by simp
    next
      case False
      with a x sk have "parse_array n (acc @ [x]) (skip_ws t') = Inr (v, r)"
        by (simp split: if_splits)
      from pa [OF this] length_skip_ws [of t'] lt lt' show ?thesis by simp
    qed
  qed
  have 3: "length r < length s" if a: "parse_object (Suc n) acc s = Inr (v, r)" for acc s v r
  proof -
    from a obtain cs where s: "s = dq # cs"
      by (cases s) (auto split: if_splits)
    from a s obtain key t where k: "scanstring cs = Inr (key, t)"
      by (cases "scanstring cs") auto
    from scanstring_length [OF k] have l1: "length t < length cs" .
    from a s k obtain t1 where sk1: "skip_ws t = CHR '':'' # t1"
      by (cases "skip_ws t") (auto split: if_splits)
    from skip_ws_Cons_length [OF sk1] have l2: "length t1 < length t" .
    from a s k sk1 obtain x t2 where x: "scan_once n (skip_ws t1) = Inr (x, t2)"
      by (cases "scan_once n (skip_ws t1)") auto
    from so [OF x] length_skip_ws [of t1] have l3: "length t2 < length t1" by simp
    from a s k sk1 x obtain d t3 where sk3: "skip_ws t2 = d # t3"
      by (cases "skip_ws t2") auto
    from skip_ws_Cons_length [OF sk3] have l4: "length t3 < length t2" .
    show ?thesis
    proof (cases "d = CHR ''}''")
      case True
      with a s k sk1 x sk3 l1 l2 l3 l4 show ?thesis by simp
    next
      case False
      with a s k sk1 x sk3
      have "parse_object n (AList.update key x acc) (skip_ws t3) = Inr (v, r)"
        by (simp split: if_splits)
      from po [OF this] length_skip_ws [of t3] s l1 l2 l3 l4 show ?thesis by simp
    qed
  qed
  from 1 2 3 show ?case by blast
qed

lemma scan_once_consumes: "scan_once n s = Inr (v, r) \<Longrightarrow> length r < length s"
  using consumes [of n] by blast

lemma decode_errors:
  "(\<forall>s e. 2 * length s < n \<longrightarrow> scan_once n s = Inl e \<longrightarrow> e = JSONDecodeError)
   \<and> (\<forall>acc s e. 2 * length s + 1 < n \<longrightarrow> parse_array n acc s = Inl e \<longrightarrow> e = JSONDecodeError)
   \<and> (\<forall>acc s e. 2 * length s + 1 < n \<longrightarrow> parse_object n acc s = Inl e \<longrightarrow> e = JSONDecodeError)"
proof (induction n)
  case 0
  then show ?case by simp
next
  case (Suc n)
  then have so: "\<And>s e. 2 * length s < n \<Longrightarrow> scan_once n s = Inl e \<Longrightarrow> e = JSONDecodeError"
    and pa: "\<And>acc s e. 2 * length s + 1 < n \<Longrightarrow> parse_array n acc s = Inl e \<Longrightarrow> e = JSONDecodeError"
    and po: "\<And>acc s e. 2 * length s + 1 < n \<Longrightarrow> parse_object n acc s = Inl e \<Longrightarrow> e = JSONDecodeError"
    by blast+
  have 1: "e = JSONDecodeError" if f: "2 * length s < Suc n" and a: "scan_once (Suc n) s = Inl e"
    for s e
  proof (cases s)
    case Nil
    with a show ?thesis by simp
  next
    case (Cons c cs)
    consider "c = dq" | "c \<noteq> dq" "c = CHR ''{''" | "c \<noteq> dq" "c \<noteq> CHR ''{''" "c = CHR ''[''"
      | "c \<noteq> dq" "c \<noteq> CHR ''{''" "c \<noteq> CHR ''[''" by blast
    then show ?thesis
    proof cases
      case 1
      with a Cons have "scanstring cs = Inl e"
        by (auto simp: and_then_def split: sum.splits)
      then show ?thesis by (rule scanstring_error)
    next
      case 2
      show ?thesis
      proof (cases "skip_ws cs")
        case Nil
        with a Cons 2 show ?thesis by simp
      next
        case sk: (Cons d t)
        from skip_ws_Cons_length [OF sk] have lt: "length t < length cs" .
        from a Cons 2 sk have "parse_object n [] (d # t) = Inl e"
          by (simp split: if_splits)
        moreover have "2 * length (d # t) + 1 < n" using lt f Cons by simp
        ultimately show ?thesis using po by blast
      qed
    next
      case 3
      show ?thesis
      proof (cases "skip_ws cs")
        case Nil
        with a Cons 3 show ?thesis by simp
      next
        case sk: (Cons d t)
        from skip_ws_Cons_length [OF sk] have lt: "length t < length cs" .
        from a Cons 3 sk have "parse_array n [] (d # t) = Inl e"
          by (simp split: if_splits)
        moreover have "2 * length (d # t) + 1 < n" using lt f Cons by simp
        ultimately show ?thesis using pa by blast
      qed
    next
      case 4
      with a Cons have "scan_number s = Inl e"
        by (auto simp del: take_Suc_Cons drop_Suc_Cons split: if_splits)
      then show ?thesis by (rule scan_number_error)
    qed
  qed
  have 2: "e = JSONDecodeError" if f: "2 * length s + 1 < Suc n"
    and a: "parse_array (Suc n) acc s = Inl e" for acc s e
  proof (cases "scan_once n s")
    case (Inl e')
    with a have "e' = e" by simp
    moreover from f have "2 * length s < n" by simp
    ultimately show ?thesis using so Inl by blast
  next
    case (Inr p)
    obtain x t where p: "p = (x, t)" by (cases p)
    with Inr have x: "scan_once n s = Inr (x, t)" by simp
    from scan_once_consumes [OF x] have lt: "length t < length s" .
    show ?thesis
    proof (cases "skip_ws t")
      case Nil
      with a x show ?thesis by simp
    next
      case sk: (Cons d t')
      from skip_ws_Cons_length [OF sk] have lt': "length t' < length t" .
      show ?thesis
      proof (cases "d = CHR '',''")
        case False
        with a x sk show ?thesis by (simp split: if_splits)
      next
        case True
        with a x sk have "parse_array n (acc @ [x]) (skip_ws t') = Inl e"
          by (simp split: if_splits)
        moreover have "2 * length (skip_ws t') + 1 < n"
          using length_skip_ws [of t'] lt lt' f by simp
        ultimately show ?thesis using pa by blast
      qed
    qed
  qed
  have 3: "e = JSONDecodeError" if f: "2 * length s + 1 < Suc n"
    and a: "parse_object (Suc n) acc s = Inl e" for acc s e
  proof (cases "\<exists>cs. s = dq # cs")
    case False
    with a show ?thesis by (cases s) (auto split: if_splits)
  next
    case True
    then obtain cs where s: "s = dq # cs" by blast
    show ?thesis
    proof (cases "scanstring cs")
      case (Inl e')
      with a s have "e' = e" by simp
      with Inl show ?thesis using scanstring_error by blast
    next
      case (Inr p)
      obtain key t where "p = (key, t)" by (cases p)
      with Inr have k: "scanstring cs = Inr (key, t)" by simp
      from scanstring_length [OF k] have l1: "length t < length cs" .
      show ?thesis
      proof (cases "\<exists>t1. skip_ws t = CHR '':'' # t1")
        case False
        with a s k show ?thesis by (cases "skip_ws t") (auto split: if_splits)
      next
        case True
        then obtain t1 where sk1: "skip_ws t = CHR '':'' # t1" by blast
        from skip_ws_Cons_length [OF sk1] have l2: "length t1 < length t" .
        have fu: "2 * length (skip_ws t1) < n"
          using length_skip_ws [of t1] s l1 l2 f by simp
        show ?thesis
        proof (cases "scan_once n (skip_ws t1)")
          case (Inl e')
          with a s k sk1 have "e' = e" by simp
          with Inl fu show ?thesis using so by blast
        next
          case (Inr p2)
          obtain x t2 where "p2 = (x, t2)" by (cases p2)
          with Inr have x: "scan_once n (skip_ws t1) = Inr (x, t2)" by simp
          from scan_once_consumes [OF x] length_skip_ws [of t1]
          have l3: "length t2 < length t1" by simp
          show ?thesis
          proof (cases "skip_ws t2")
            case Nil
            with a s k sk1 x show ?thesis by simp
          next
            case sk3: (Cons d t3)
            from skip_ws_Cons_length [OF sk3] have l4: "length t3 < length t2" .
            show ?thesis
            proof (cases "d = CHR '',''")
              case False
              with a s k sk1 x sk3 show ?thesis by (simp split: if_splits)
            next
              case True
              with a s k sk1 x sk3
              have "parse_object n (AList.update key x acc) (skip_ws t3) = Inl e"
                by (simp split: if_splits)
              moreover have "2 * length (skip_ws t3) + 1 < n"
                using length_skip_ws [of t3] s l1 l2 l3 l4 f by simp
              ultimately show ?thesis using po by blast
            qed
          qed
        qed
      qed
    qed
  qed
  from 1 2 3 show ?case by blast
qed

lemma json_loads_error: "json_loads s = Inl e \<Longrightarrow> e = JSONDecodeError"
proof -
  assume a: "json_loads s = Inl e"
  have fu: "2 * length (skip_ws s) < Suc (length s + length s)"
    using length_skip_ws [of s] by simp
  show ?thesis
  proof (cases "scan_once (Suc (length s + length s)) (skip_ws s)")
    case (Inl e')
    with a have "e' = e" by (simp add: json_loads_def)
    with Inl fu decode_errors [of "Suc (length s + length s)"] show ?thesis by blast
  next
    case (Inr p)
    with a show ?thesis
      by (auto simp: json_loads_def split: prod.splits if_splits)
  qed
qed

lemma json_loads_fuel: "json_loads s \<noteq> Inl RecursionError"
  using json_loads_error [of s RecursionError] by auto

text \<open>
  So the fuel never decides a result of \<open>json_loads\<close>: a text that it rejects is rejected
  by the scanner, with \<^verbatim>\<open>JSONDecodeError\<close>.
\<close>


section \<open>The save store\<close>

lemma load_save_Content:
  "save_file d = Content s \<Longrightarrow>
     load_save d = (case json_loads s of Inr data \<Rightarrow> data | Inl e \<Rightarrow> default_save)"
  by (simp add: load_save_def path_exists_def read_text_def and_then_def)

lemma load_save_no_text:
  "save_file d = Missing \<or> save_file d = Unreadable \<Longrightarrow> load_save d = default_save"
  by (auto simp: load_save_def path_exists_def read_text_def and_then_def)

lemma default_save_record: "default_save = save_record 1 50 50"
  by (simp add: default_save_def save_record_def)

lemma saved_chapter_save_record: "saved_chapter (save_record c px py) = Inr (PInt c)"
  by (simp add: saved_chapter_def save_record_def)

lemma saved_position_save_record: "saved_position (save_record c px py) = Inr (PInt px, PInt py)"
  by (simp add: saved_position_def save_record_def and_then_def)

lemma save_record_shape_save_record: "save_record_shape (save_record c px py)"
  by (simp add: save_record_shape_def saved_chapter_save_record saved_position_save_record
      ChapterScene_make_def hashable_def is_number_def)

lemma save_record_shape_default: "save_record_shape default_save"
  by (simp add: default_save_record save_record_shape_save_record)

text \<open>
  Claim C6. \<open>load_save\<close> returns a value for every state of the disk: its result type has no
  exception. When the save file is missing, or exists and cannot be read, or holds a text
  that the decoder rejects, that value is the default record with chapter 1 and the player at
  (50, 50).
\<close>

theorem load_save_default_on_missing_or_corrupt:
  assumes "save_file d = Missing \<or> save_file d = Unreadable
           \<or> (\<exists>s e. save_file d = Content s \<and> json_loads s = Inl e)"
  shows "load_save d = save_record 1 50 50"
  using assms by (auto simp: load_save_Content load_save_no_text default_save_record)

theorem load_save_default_on_corrupt_witness:
  "json_loads ''{'' = Inl JSONDecodeError
   \<and> load_save \<lparr>save_file = Content ''{'', writable = True\<rparr> = save_record 1 50 50"
proof -
  have h: "json_loads ''{'' = Inl JSONDecodeError" by code_simp
  show ?thesis
    using h load_save_default_on_missing_or_corrupt
      [of "\<lparr>save_file = Content ''{'', writable = True\<rparr>"]
    by simp
qed

text \<open>
  Claim C7, as stated: every value that \<open>load_save\<close> returns has the shape of a SaveRecord.
  It fails for a save file that holds the empty JSON object: \<open>load_save\<close> returns the empty
  dictionary, which has neither a chapter nor a player.
\<close>

theorem load_save_empty_object_counterexample:
  "load_save \<lparr>save_file = Content ''{}'', writable = True\<rparr> = PDict []
   \<and> \<not> save_record_shape (load_save \<lparr>save_file = Content ''{}'', writable = True\<rparr>)"
proof -
  have h: "json_loads ''{}'' = Inr (PDict [])" by code_simp
  show ?thesis
    by (simp add: load_save_Content h save_record_shape_def saved_chapter_def)
qed

text \<open>
  Claim C7, amended. \<open>load_save\<close> does not validate what it decodes. When the save file
  holds a text that the decoder accepts, \<open>load_save\<close> returns the decoded value as it is,
  whatever its shape; when the file is missing, unreadable or rejected by the decoder, it
  returns the default record, which has the shape of a SaveRecord. So the result has that
  shape exactly when the file is missing, unreadable or rejected, or decodes to a value of
  that shape.
\<close>

theorem load_save_returns_decoded_or_default:
  "(\<forall>s data. save_file d = Content s \<longrightarrow> json_loads s = Inr data \<longrightarrow> load_save d = data)
   \<and> (save_file d = Missing \<or> save_file d = Unreadable
        \<or> (\<exists>s e. save_file d = Content s \<and> json_loads s = Inl e)
      \<longrightarrow> load_save d = save_record 1 50 50)
   \<and> save_record_shape (save_record 1 50 50)
   \<and> (save_record_shape (load_save d) \<longleftrightarrow>
        (\<forall>s data. save_file d = Content s \<longrightarrow> json_loads s = Inr data \<longrightarrow> save_record_shape data))"
proof (intro conjI allI impI)
  fix s data
  assume "save_file d = Content s" and "json_loads s = Inr data"
  then show "load_save d = data" by (simp add: load_save_Content)
next
  assume "save_file d = Missing \<or> save_file d = Unreadable
        \<or> (\<exists>s e. save_file d = Content s \<and> json_loads s = Inl e)"
  then show "load_save d = save_record 1 50 50"
    by (auto simp: load_save_Content load_save_no_text default_save_record)
next
  show "save_record_shape (save_record 1 50 50)" by (rule save_record_shape_save_record)
next
  show "save_record_shape (load_save d) \<longleftrightarrow>
        (\<forall>s data. save_file d = Content s \<longrightarrow> json_loads s = Inr data \<longrightarrow> save_record_shape data)"
  proof (cases "save_file d")
    case Missing
    then show ?thesis by (simp add: load_save_no_text save_record_shape_default)
  next
    case Unreadable
    then show ?thesis by (simp add: load_save_no_text save_record_shape_default)
  next
    case (Content s)
    then show ?thesis
      by (cases "json_loads s") (simp_all add: load_save_Content save_record_shape_default)
  qed
qed

theorem load_save_returns_decoded_or_default_witness:
  "json_loads (''{'' @ [dq] @ ''chapter'' @ [dq] @ '': 2, '' @ [dq] @ ''player'' @ [dq] @ '': {''
               @ [dq] @ ''x'' @ [dq] @ '': 1.5, '' @ [dq] @ ''y'' @ [dq] @ '': 7}}'')
     = Inr (PDict [(''chapter'', PInt 2),
                   (''player'', PDict [(''x'', PFloat (float_of_decimal False 15 (- 1))),
                                       (''y'', PInt 7)])])
   \<and> load_save \<lparr>save_file = Content
         (''{'' @ [dq] @ ''chapter'' @ [dq] @ '': 2, '' @ [dq] @ ''player'' @ [dq] @ '': {''
               @ [dq] @ ''x'' @ [dq] @ '': 1.5, '' @ [dq] @ ''y'' @ [dq] @ '': 7}}''),
         writable = False\<rparr>
     = PDict [(''chapter'', PInt 2),
              (''player'', PDict [(''x'', PFloat (float_of_decimal False 15 (- 1))),
                                  (''y'', PInt 7)])]
   \<and> save_record_shape (load_save \<lparr>save_file = Content
         (''{'' @ [dq] @ ''chapter'' @ [dq] @ '': 2, '' @ [dq] @ ''player'' @ [dq] @ '': {''
               @ [dq] @ ''x'' @ [dq] @ '': 1.5, '' @ [dq] @ ''y'' @ [dq] @ '': 7}}''),
         writable = False\<rparr>)
   \<and> json_loads ''[1, 2'' = Inl JSONDecodeError
   \<and> load_save \<lparr>save_file = Content ''[1, 2'', writable = False\<rparr> = save_record 1 50 50"
proof -
  let ?text = "''{'' @ [dq] @ ''chapter'' @ [dq] @ '': 2, '' @ [dq] @ ''player'' @ [dq] @ '': {''
               @ [dq] @ ''x'' @ [dq] @ '': 1.5, '' @ [dq] @ ''y'' @ [dq] @ '': 7}}''"
  let ?data = "PDict [(''chapter'', PInt 2),
                   (''player'', PDict [(''x'', PFloat (float_of_decimal False 15 (- 1))),
                                       (''y'', PInt 7)])]"
  have dec: "json_loads ?text = Inr ?data"
    by (simp add: json_loads_def scan_once_Cons skip_ws_Nil skip_ws_Cons is_ws_def and_then_def
        prepend_def scan_number_def scan_natural_def scan_fraction_def scan_exponent_def
        is_digit_def digits_val_def digit_val_def Let_def
        del: scan_once.simps(2))
  have shape: "save_record_shape ?data"
    by (simp add: save_record_shape_def saved_chapter_def saved_position_def and_then_def
        ChapterScene_make_def hashable_def is_number_def)
  have rej: "json_loads ''[1, 2'' = Inl JSONDecodeError" by code_simp
  show ?thesis
    using dec shape rej
      load_save_returns_decoded_or_default
        [of "\<lparr>save_file = Content ?text, writable = False\<rparr>"]
      load_save_returns_decoded_or_default
        [of "\<lparr>save_file = Content ''[1, 2'', writable = False\<rparr>"]
    by simp
qed

text \<open>
  Claim C8. For every SaveRecord with integer fields, writing it to a writable disk and
  loading again returns the record; and when the disk holds such a record, writing what
  \<open>load_save\<close> returns leaves what \<open>load_save\<close> returns unchanged.
\<close>

theorem write_then_load_round_trip:
  assumes "writable d"
  shows "and_then (write_save (save_record c px py) d) (\<lambda>d'. Inr (load_save d'))
           = Inr (save_record c px py)
         \<and> (load_save d = save_record c px py \<longrightarrow>
              and_then (write_save (load_save d) d) (\<lambda>d'. Inr (load_save d')) = Inr (load_save d))"
  using assms
  by (simp add: write_save_def write_text_def load_save_Content json_dumps_save_record
      json_loads_save_text and_then_def)

theorem write_then_load_round_trip_witness:
  "writable \<lparr>save_file = Content (save_text 2 100 200), writable = True\<rparr>
   \<and> load_save \<lparr>save_file = Content (save_text 2 100 200), writable = True\<rparr>
       = save_record 2 100 200
   \<and> and_then (write_save (save_record 2 100 200)
                 \<lparr>save_file = Content (save_text 2 100 200), writable = True\<rparr>)
        (\<lambda>d'. Inr (load_save d')) = Inr (save_record 2 100 200)"
  using write_then_load_round_trip
    [of "\<lparr>save_file = Content (save_text 2 100 200), writable = True\<rparr>" 2 100 200]
  by (simp add: load_save_Content json_loads_save_text)

text \<open>
  Claim C9. When the write succeeds, the save file holds the encoding of the data and nothing
  of what it held before; when it fails, \<open>write_save\<close> raises \<^verbatim>\<open>OSError\<close> to its caller.
\<close>

theorem write_save_overwrites_or_raises:
  "(writable d \<longrightarrow>
      map_sum id save_file (write_save data d) = Inr (Content (json_dumps data)))
   \<and> (\<not> writable d \<longrightarrow> write_save data d = Inl OSError)"
  by (simp add: write_save_def write_text_def)

theorem write_save_overwrites_or_raises_witness:
  "map_sum id save_file
     (write_save (save_record 1 50 50) \<lparr>save_file = Content ''old text'', writable = True\<rparr>)
     = Inr (Content (save_text 1 50 50))
   \<and> write_save (save_record 1 50 50) \<lparr>save_file = Content ''old text'', writable = False\<rparr>
     = Inl OSError"
  using write_save_overwrites_or_raises
      [of "\<lparr>save_file = Content ''old text'', writable = True\<rparr>" "save_record 1 50 50"]
    write_save_overwrites_or_raises
      [of "\<lparr>save_file = Content ''old text'', writable = False\<rparr>" "save_record 1 50 50"]
  by (simp add: json_dumps_save_record)


section \<open>Steps of the scenes\<close>

lemma floor_48_25: "\<lfloor>48 / 25 :: rat\<rfloor> = 1"
  by (rule floor_unique) simp_all

lemma ChapterScene_make_int:
  "ChapterScene_make (PInt n) = Inr (ChapterScene_init (chapter_class_of n) (PInt n))"
  by (simp add: ChapterScene_make_def hashable_def mapping_get_def chapter_class_of_def)

lemma ChapterScene_start_int:
  "chapter_no c = PInt n \<Longrightarrow>
     ChapterScene_start c
       = Inr (c\<lparr>world_color := Some (PInt (50 * n), PInt (20 * n), PInt (60 * n))\<rparr>)"
  by (simp add: ChapterScene_start_def and_then_def)

lemma DeltaGame_init_eq:
  "DeltaGame_init sv d =
     Inr \<lparr>save = sv, scene = Title \<lparr>timer = Some 0\<rparr>, disk = d,
          calls = [Start (Title \<lparr>timer = None\<rparr>)]\<rparr>"
  by (simp add: DeltaGame_init_def dispatch_start_def TitleScene_start_def)

lemma title_wait_step:
  assumes "scene g = Title \<lparr>timer = Some t\<rparr>" and "t + dt \<le> 2000"
  shows "dispatch_update dt ks g = Inr (g\<lparr>scene := Title \<lparr>timer = Some (t + dt)\<rparr>\<rparr>)"
  using assms by (simp add: dispatch_update_def TitleScene_update_def)

lemma title_fire:
  assumes "scene g = Title \<lparr>timer = Some t\<rparr>" and "2000 < t + dt"
    and "py_getitem (save g) ''chapter'' = Inr (PInt n)"
  shows "dispatch_update dt ks g =
     Inr (g\<lparr>scene := Chapter (started (chapter_class_of n) n),
            calls := calls g @ [Stop (Title \<lparr>timer = Some (t + dt)\<rparr>),
                                Start (Chapter (ChapterScene_init (chapter_class_of n) (PInt n)))]\<rparr>)"
  using assms
  by (simp add: dispatch_update_def TitleScene_update_def and_then_def ChapterScene_make_int
      change_scene_def dispatch_stop_def dispatch_start_def ChapterScene_start_int started_def
      ChapterScene_init_def)

lemma chapter_update_no_escape:
  assumes "scene g = Chapter c" and "\<not> K_ESCAPE ks"
  shows "dispatch_update dt ks g =
     Inr (g\<lparr>scene := Chapter (c\<lparr>player :=
            move_ip (player c)
              (axis_offset (K_a ks) (K_d ks) (of_int (speed c * dt) / 1000))
              (axis_offset (K_w ks) (K_s ks) (of_int (speed c * dt) / 1000))\<rparr>)\<rparr>)"
  using assms
  by (simp add: dispatch_update_def ChapterScene_update_def and_then_def Let_def axis_offset_def)

lemma chapter_step_no_escape:
  assumes "scene g = Chapter c" and "\<not> K_ESCAPE ks"
  shows "\<exists>c'. dispatch_update dt ks g = Inr (g\<lparr>scene := Chapter c'\<rparr>)
            \<and> cls c' = cls c \<and> chapter_no c' = chapter_no c"
proof -
  let ?c = "c\<lparr>player := move_ip (player c)
              (axis_offset (K_a ks) (K_d ks) (of_int (speed c * dt) / 1000))
              (axis_offset (K_w ks) (K_s ks) (of_int (speed c * dt) / 1000))\<rparr>"
  have "dispatch_update dt ks g = Inr (g\<lparr>scene := Chapter ?c\<rparr>)"
    by (rule chapter_update_no_escape [OF assms])
  moreover have "cls ?c = cls c" "chapter_no ?c = chapter_no c" by simp_all
  ultimately show ?thesis by blast
qed

lemma run_updates_append:
  "run_updates (xs @ ys) g = and_then (run_updates xs g) (run_updates ys)"
proof (induction xs arbitrary: g)
  case Nil
  then show ?case by (simp add: and_then_def)
next
  case (Cons f xs)
  obtain dt ks where f: "f = (dt, ks)" by (cases f)
  show ?case
    by (cases "dispatch_update dt ks g") (simp_all add: f and_then_def Cons.IH)
qed

lemma chapter_run_no_escape:
  assumes "scene g = Chapter c" and "\<forall>f \<in> set frames. \<not> K_ESCAPE (snd f)"
  shows "\<exists>c'. run_updates frames g = Inr (g\<lparr>scene := Chapter c'\<rparr>)
            \<and> cls c' = cls c \<and> chapter_no c' = chapter_no c"
  using assms
proof (induction frames arbitrary: g c)
  case Nil
  then have "g\<lparr>scene := Chapter c\<rparr> = g" by simp
  then show ?case by (metis run_updates.simps(1))
next
  case (Cons f frames)
  obtain dt ks where f: "f = (dt, ks)" by (cases f)
  with Cons.prems have ne: "\<not> K_ESCAPE ks" by simp
  from chapter_step_no_escape [OF Cons.prems(1) ne]
  obtain c1 where s1: "dispatch_update dt ks g = Inr (g\<lparr>scene := Chapter c1\<rparr>)"
    and k1: "cls c1 = cls c" "chapter_no c1 = chapter_no c" by blast
  have "scene (g\<lparr>scene := Chapter c1\<rparr>) = Chapter c1" by simp
  from Cons.IH [OF this] Cons.prems(2)
  obtain c2 where
    s2: "run_updates frames (g\<lparr>scene := Chapter c1\<rparr>)
           = Inr (g\<lparr>scene := Chapter c1\<rparr>\<lparr>scene := Chapter c2\<rparr>)"
    and k2: "cls c2 = cls c1" "chapter_no c2 = chapter_no c1" by auto
  show ?case using s1 s2 k1 k2 f by (auto simp: and_then_def)
qed

lemma title_wait_run:
  assumes "scene g = Title \<lparr>timer = Some t\<rparr>"
    and "\<forall>f \<in> set frames. 0 \<le> fst f"
    and "t + sum_list (map fst frames) \<le> 2000"
  shows "run_updates frames g
           = Inr (g\<lparr>scene := Title \<lparr>timer = Some (t + sum_list (map fst frames))\<rparr>\<rparr>)"
  using assms
proof (induction frames arbitrary: g t)
  case Nil
  then show ?case by simp
next
  case (Cons f frames)
  obtain dt ks where f: "f = (dt, ks)" by (cases f)
  from Cons.prems(2) f have dt: "0 \<le> dt" and rest: "\<forall>f \<in> set frames. 0 \<le> fst f"
    by simp_all
  from rest have nonneg: "0 \<le> sum_list (map fst frames)"
    by (intro sum_list_nonneg) auto
  let ?g1 = "g\<lparr>scene := Title \<lparr>timer = Some (t + dt)\<rparr>\<rparr>"
  have le: "t + dt \<le> 2000" using Cons.prems(3) f nonneg by simp
  have step: "dispatch_update dt ks g = Inr ?g1"
    by (rule title_wait_step [OF Cons.prems(1) le])
  have sc1: "scene ?g1 = Title \<lparr>timer = Some (t + dt)\<rparr>" by simp
  have le1: "t + dt + sum_list (map fst frames) \<le> 2000" using Cons.prems(3) f by simp
  from Cons.IH [OF sc1 rest le1] step f show ?case
    by (simp add: and_then_def add.assoc)
qed

lemma title_run:
  assumes "scene g = Title \<lparr>timer = Some t\<rparr>"
    and "py_getitem (save g) ''chapter'' = Inr (PInt n)"
    and "\<forall>f \<in> set frames. 0 \<le> fst f \<and> \<not> K_ESCAPE (snd f)"
    and "t \<le> 2000"
  shows "\<exists>g'. run_updates frames g = Inr g' \<and> save g' = save g \<and> disk g' = disk g \<and>
      (if t + sum_list (map fst frames) \<le> 2000
       then scene g' = Title \<lparr>timer = Some (t + sum_list (map fst frames))\<rparr>
            \<and> calls g' = calls g
       else (\<exists>c t'. scene g' = Chapter c \<and> cls c = chapter_class_of n \<and> chapter_no c = PInt n
               \<and> 2000 < t'
               \<and> calls g' = calls g @ [Stop (Title \<lparr>timer = Some t'\<rparr>),
                     Start (Chapter (ChapterScene_init (chapter_class_of n) (PInt n)))]))"
  using assms
proof (induction frames arbitrary: g t)
  case Nil
  then show ?case by simp
next
  case (Cons f frames)
  obtain dt ks where f: "f = (dt, ks)" by (cases f)
  from Cons.prems(3) f have dt: "0 \<le> dt"
    and rest: "\<forall>f \<in> set frames. 0 \<le> fst f \<and> \<not> K_ESCAPE (snd f)"
    by simp_all
  from rest have nonneg: "0 \<le> sum_list (map fst frames)"
    by (intro sum_list_nonneg) auto
  show ?case
  proof (cases "t + dt \<le> 2000")
    case True
    let ?g1 = "g\<lparr>scene := Title \<lparr>timer = Some (t + dt)\<rparr>\<rparr>"
    have step: "dispatch_update dt ks g = Inr ?g1"
      by (rule title_wait_step [OF Cons.prems(1) True])
    have sc1: "scene ?g1 = Title \<lparr>timer = Some (t + dt)\<rparr>" by simp
    have ch1: "py_getitem (save ?g1) ''chapter'' = Inr (PInt n)" using Cons.prems(2) by simp
    have "\<exists>g'. run_updates frames ?g1 = Inr g' \<and> save g' = save g \<and> disk g' = disk g \<and>
      (if t + dt + sum_list (map fst frames) \<le> 2000
       then scene g' = Title \<lparr>timer = Some (t + dt + sum_list (map fst frames))\<rparr>
            \<and> calls g' = calls g
       else (\<exists>c t'. scene g' = Chapter c \<and> cls c = chapter_class_of n \<and> chapter_no c = PInt n
               \<and> 2000 < t'
               \<and> calls g' = calls g @ [Stop (Title \<lparr>timer = Some t'\<rparr>),
                     Start (Chapter (ChapterScene_init (chapter_class_of n) (PInt n)))]))"
      using Cons.IH [OF sc1 ch1 rest True] by (simp cong: if_cong)
    then obtain g' where run: "run_updates frames ?g1 = Inr g'"
      and keep: "save g' = save g" "disk g' = disk g"
      and res: "if t + dt + sum_list (map fst frames) \<le> 2000
       then scene g' = Title \<lparr>timer = Some (t + dt + sum_list (map fst frames))\<rparr>
            \<and> calls g' = calls g
       else (\<exists>c t'. scene g' = Chapter c \<and> cls c = chapter_class_of n \<and> chapter_no c = PInt n
               \<and> 2000 < t'
               \<and> calls g' = calls g @ [Stop (Title \<lparr>timer = Some t'\<rparr>),
                     Start (Chapter (ChapterScene_init (chapter_class_of n) (PInt n)))])"
      by blast
    have "run_updates (f # frames) g = Inr g'"
      using step run f by (simp add: and_then_def)
    moreover have "t + sum_list (map fst (f # frames)) = t + dt + sum_list (map fst frames)"
      using f by simp
    ultimately show ?thesis using keep res
      by (intro exI [of _ g']) (simp del: sum_list.Cons list.map split: if_splits)
  next
    case False
    then have fire: "2000 < t + dt" by simp
    let ?c = "started (chapter_class_of n) n"
    let ?g1 = "g\<lparr>scene := Chapter ?c,
            calls := calls g @ [Stop (Title \<lparr>timer = Some (t + dt)\<rparr>),
                                Start (Chapter (ChapterScene_init (chapter_class_of n) (PInt n)))]\<rparr>"
    have step: "dispatch_update dt ks g = Inr ?g1"
      by (rule title_fire [OF Cons.prems(1) fire Cons.prems(2)])
    have sc: "scene ?g1 = Chapter ?c" by simp
    from rest have ne: "\<forall>f \<in> set frames. \<not> K_ESCAPE (snd f)" by simp
    from chapter_run_no_escape [OF sc ne]
    obtain c' where run: "run_updates frames ?g1 = Inr (?g1\<lparr>scene := Chapter c'\<rparr>)"
      and k: "cls c' = cls ?c" "chapter_no c' = chapter_no ?c" by blast
    have total: "\<not> t + sum_list (map fst (f # frames)) \<le> 2000"
      using fire nonneg f by simp
    have "run_updates (f # frames) g = Inr (?g1\<lparr>scene := Chapter c'\<rparr>)"
      using step run f by (simp add: and_then_def)
    moreover have "cls c' = chapter_class_of n" "chapter_no c' = PInt n"
      using k by (simp_all add: started_def ChapterScene_init_def)
    ultimately show ?thesis using total fire
      by (auto simp del: sum_list.Cons list.map)
  qed
qed


section \<open>The title scene and the start of a chapter\<close>

text \<open>
  Claim C4. Start the game with save data whose chapter is the integer \<open>n\<close> and run the
  updates of any frames with non-negative time steps in which Escape is not held. While the
  time steps sum to at most 2000 ms the title scene stays, with that sum as its timer, and
  nothing but its own start is logged. Once they sum to more, exactly one change of scene
  has happened: the title scene was stopped with a timer above 2000 and the chapter scene
  that the factory makes for \<open>n\<close> was started, and it is the scene of the game. The model
  is a function, so the behaviour is determined by the save data and the frames.
\<close>

theorem title_auto_transition:
  assumes "saved_chapter sv = Inr (PInt n)"
    and "\<forall>f \<in> set frames. 0 \<le> fst f \<and> \<not> K_ESCAPE (snd f)"
  shows "\<exists>g. and_then (DeltaGame_init sv d) (run_updates frames) = Inr g \<and>
      (if sum_list (map fst frames) \<le> 2000
       then scene g = Title \<lparr>timer = Some (sum_list (map fst frames))\<rparr>
            \<and> calls g = [Start (Title \<lparr>timer = None\<rparr>)]
       else (\<exists>c t. scene g = Chapter c \<and> cls c = chapter_class_of n \<and> chapter_no c = PInt n
               \<and> 2000 < t
               \<and> calls g = [Start (Title \<lparr>timer = None\<rparr>), Stop (Title \<lparr>timer = Some t\<rparr>),
                     Start (Chapter (ChapterScene_init (chapter_class_of n) (PInt n)))]))"
proof -
  let ?g0 = "\<lparr>save = sv, scene = Title \<lparr>timer = Some 0\<rparr>, disk = d,
          calls = [Start (Title \<lparr>timer = None\<rparr>)]\<rparr>"
  have sc0: "scene ?g0 = Title \<lparr>timer = Some 0\<rparr>" by simp
  have ch0: "py_getitem (save ?g0) ''chapter'' = Inr (PInt n)"
    using assms(1) by (simp add: saved_chapter_def)
  have "(0::int) \<le> 2000" by simp
  from title_run [OF sc0 ch0 assms(2) this] obtain g where run: "run_updates frames ?g0 = Inr g"
    and res: "if 0 + sum_list (map fst frames) \<le> 2000
       then scene g = Title \<lparr>timer = Some (0 + sum_list (map fst frames))\<rparr> \<and> calls g = calls ?g0
       else (\<exists>c t'. scene g = Chapter c \<and> cls c = chapter_class_of n \<and> chapter_no c = PInt n
               \<and> 2000 < t'
               \<and> calls g = calls ?g0 @ [Stop (Title \<lparr>timer = Some t'\<rparr>),
                     Start (Chapter (ChapterScene_init (chapter_class_of n) (PInt n)))])"
    by auto
  have "and_then (DeltaGame_init sv d) (run_updates frames) = Inr g"
    using run by (simp add: DeltaGame_init_eq and_then_def)
  then show ?thesis using res by (intro exI [of _ g]) (simp split: if_splits)
qed

theorem title_auto_transition_witness:
  "saved_chapter (save_record 2 50 50) = Inr (PInt 2)
   \<and> (\<exists>g c t. and_then (DeltaGame_init (save_record 2 50 50) \<lparr>save_file = Missing, writable = True\<rparr>)
               (run_updates [(1000, no_keys), (1000, no_keys), (16, no_keys),
                             (16, no_keys\<lparr>K_d := True\<rparr>)]) = Inr g
         \<and> scene g = Chapter c \<and> cls c = ChapterTwo \<and> chapter_no c = PInt 2 \<and> 2000 < t
         \<and> calls g = [Start (Title \<lparr>timer = None\<rparr>), Stop (Title \<lparr>timer = Some t\<rparr>),
                     Start (Chapter (ChapterScene_init ChapterTwo (PInt 2)))])"
  using title_auto_transition [of "save_record 2 50 50" 2
      "[(1000, no_keys), (1000, no_keys), (16, no_keys), (16, no_keys\<lparr>K_d := True\<rparr>)]"
      "\<lparr>save_file = Missing, writable = True\<rparr>"]
  by (simp add: saved_chapter_save_record no_keys_def chapter_class_of_def)

text \<open>
  Whatever position the save data hold, the chapter scene that the title scene starts when
  its timer passes 2000 ms has its entity at (50, 50), where the constructor puts it.
\<close>

lemma chapter_entity_position_after_title:
  assumes "saved_chapter sv = Inr (PInt n)"
    and "\<forall>f \<in> set frames. 0 \<le> fst f"
    and "sum_list (map fst frames) \<le> 2000"
    and "2000 < sum_list (map fst frames) + dt"
  shows "map_sum id entity_position
           (and_then (DeltaGame_init sv d) (run_updates (frames @ [(dt, ks)])))
         = Inr (Some (50, 50))"
proof -
  let ?init = "\<lparr>save = sv, scene = Title \<lparr>timer = Some 0\<rparr>, disk = d,
          calls = [Start (Title \<lparr>timer = None\<rparr>)]\<rparr>"
  let ?waited = "?init\<lparr>scene := Title \<lparr>timer = Some (sum_list (map fst frames))\<rparr>\<rparr>"
  have sc0: "scene ?init = Title \<lparr>timer = Some 0\<rparr>" by simp
  have run: "run_updates frames ?init = Inr ?waited"
    using title_wait_run [OF sc0 assms(2)] assms(3) by simp
  have sc: "scene ?waited = Title \<lparr>timer = Some (sum_list (map fst frames))\<rparr>" by simp
  have ch: "py_getitem (save ?waited) ''chapter'' = Inr (PInt n)"
    using assms(1) by (simp add: saved_chapter_def)
  have fire: "2000 < sum_list (map fst frames) + dt" using assms(4) by simp
  have "run_updates (frames @ [(dt, ks)]) ?init = dispatch_update dt ks ?waited"
    using run by (simp add: run_updates_append and_then_def split: sum.splits)
  then show ?thesis
    using title_fire [OF sc fire ch, of ks]
    by (simp add: DeltaGame_init_eq and_then_def entity_position_def started_def
        ChapterScene_init_def)
qed

text \<open>
  Claim C1, evaluated on the source. Start the game with save data that hold chapter 2 and
  the player at (100, 200), and let the title scene hand over: the entity of the chapter scene
  is at (50, 50), not at the saved position. Go on, move the entity one step to the right and
  leave the chapter with Escape: \<open>ChapterScene_stop\<close> writes the position (51, 50) into the save
  data, beside the chapter. When the title scene hands over again, it reads the chapter back
  from the save data, and the entity is at (50, 50) once more: the position that the code
  saves is never read.
\<close>

theorem chapter_entity_ignores_saved_position:
  "saved_position (save_record 2 100 200) = Inr (PInt 100, PInt 200)
   \<and> map_sum id entity_position
       (and_then (DeltaGame_init (save_record 2 100 200) \<lparr>save_file = Missing, writable = True\<rparr>)
          (run_updates [(1000, no_keys), (1000, no_keys), (16, no_keys)]))
     = Inr (Some (50, 50))
   \<and> map_sum id (\<lambda>g. (saved_position (save g), entity_position g))
       (and_then (DeltaGame_init (save_record 2 100 200) \<lparr>save_file = Missing, writable = True\<rparr>)
          (run_updates [(1000, no_keys), (1000, no_keys), (16, no_keys),
                        (16, no_keys\<lparr>K_d := True\<rparr>), (16, no_keys\<lparr>K_ESCAPE := True\<rparr>),
                        (2001, no_keys)]))
     = Inr (Inr (PInt 51, PInt 50), Some (50, 50))"
  by (simp add: DeltaGame_init_eq and_then_def dispatch_update_def TitleScene_update_def
      saved_position_def save_record_def ChapterScene_make_int change_scene_def
      dispatch_stop_def dispatch_start_def ChapterScene_start_int ChapterScene_init_def
      entity_position_def no_keys_def ChapterScene_update_def ChapterScene_stop_def
      TitleScene_start_def write_save_def write_text_def move_ip_def c_int_def truncate_rat_def
      wrap_int32_def floor_48_25 Let_def update_conv')

section \<open>Movement\<close>

lemma c_int_0: "c_int 0 = 0"
  by (simp add: c_int_def truncate_rat_def)

lemma c_int_48_25: "c_int (48 / 25) = 1"
  by (simp add: c_int_def truncate_rat_def floor_48_25)

lemma c_int_quotient:
  assumes "0 \<le> a" and "a div 1000 < 2147483648"
  shows "c_int (of_int a / 1000) = a div 1000"
proof -
  have "\<lfloor>(of_int a :: rat) / of_int 1000\<rfloor> = a div 1000"
    by (rule floor_divide_of_int_eq)
  moreover have "(0::rat) \<le> of_int a / 1000" using assms(1) by simp
  moreover have "0 \<le> a div 1000" using assms(1) by simp
  ultimately show ?thesis using assms(2) by (simp add: c_int_def truncate_rat_def)
qed

lemma wrap_int32_in_range:
  assumes "- 2147483648 \<le> i" and "i < 2147483648"
  shows "wrap_int32 i = i"
  using assms by (simp add: wrap_int32_def)

text \<open>
  In general: with only the key for right held, one update moves the entity to the right by
  the integer quotient of \<open>speed * dt\<close> by 1000, and leaves its height, as long as the
  position stays within 32 bits.
\<close>

lemma right_key_moves_by_quotient:
  assumes "scene g = Chapter c" and "0 \<le> speed c * dt"
    and "speed c * dt div 1000 < 2147483648"
    and "- 2147483648 \<le> rect_x (player c)"
    and "rect_x (player c) + speed c * dt div 1000 < 2147483648"
    and "- 2147483648 \<le> rect_y (player c)" and "rect_y (player c) < 2147483648"
  shows "map_sum id entity_position (dispatch_update dt (no_keys\<lparr>K_d := True\<rparr>) g)
           = Inr (Some (rect_x (player c) + speed c * dt div 1000, rect_y (player c)))"
proof -
  have ne: "\<not> K_ESCAPE (no_keys\<lparr>K_d := True\<rparr>)" by (simp add: no_keys_def)
  have q0: "0 \<le> speed c * dt div 1000" using assms(2) by simp
  have x: "wrap_int32 (rect_x (player c) + speed c * dt div 1000)
      = rect_x (player c) + speed c * dt div 1000"
    using assms(4,5) q0 by (intro wrap_int32_in_range) simp_all
  have y: "wrap_int32 (rect_y (player c)) = rect_y (player c)"
    using assms(6,7) by (intro wrap_int32_in_range)
  show ?thesis
    using chapter_update_no_escape [OF assms(1) ne, of dt] c_int_quotient [OF assms(2,3)] x y
    by (simp add: entity_position_def move_ip_def axis_offset_def no_keys_def c_int_0)
qed

text \<open>
  Claim C2, evaluated on the source. A chapter scene has speed 120 and its entity at
  (50, 50). After one update of 16 ms with only the key for right held the entity is at
  (51, 50): the offset 1.92 of the source loses its fraction in the rectangle, which holds
  integers, so that x grows by 1 and not by 120 * 0.016. With right and down held the
  entity is at (51, 51), the same amount on each axis.
\<close>

theorem update_16ms_moves_one_pixel:
  "map_sum id entity_position
     (and_then (DeltaGame_init (save_record 1 50 50) \<lparr>save_file = Missing, writable = True\<rparr>)
        (run_updates [(2001, no_keys), (16, no_keys\<lparr>K_d := True\<rparr>)]))
     = Inr (Some (51, 50))
   \<and> map_sum id entity_position
     (and_then (DeltaGame_init (save_record 1 50 50) \<lparr>save_file = Missing, writable = True\<rparr>)
        (run_updates [(2001, no_keys), (16, no_keys\<lparr>K_d := True, K_s := True\<rparr>)]))
     = Inr (Some (51, 51))
   \<and> (of_int (51 - 50) :: rat) < of_int (120 * 16) / 1000"
  by (simp add: DeltaGame_init_eq and_then_def dispatch_update_def TitleScene_update_def
      save_record_def ChapterScene_make_int change_scene_def dispatch_stop_def dispatch_start_def
      ChapterScene_start_int ChapterScene_init_def entity_position_def no_keys_def
      ChapterScene_update_def move_ip_def c_int_48_25 c_int_0 wrap_int32_def Let_def)

section \<open>Changing the scene\<close>

lemma dispatch_start_Inr:
  assumes "dispatch_start g = Inr g'"
  shows "save g' = save g \<and> disk g' = disk g \<and> calls g' = calls g @ [Start (scene g)]"
  using assms
  by (cases "scene g")
     (auto simp: dispatch_start_def and_then_def Let_def split: sum.splits)

lemma dispatch_stop_Title:
  "scene g = Title t \<Longrightarrow> dispatch_stop g = Inr (g\<lparr>calls := calls g @ [Stop (Title t)]\<rparr>)"
  by (simp add: dispatch_stop_def)

lemma py_getitem_setitem_same:
  "py_setitem v k x = Inr w \<Longrightarrow> py_getitem w k = Inr x"
  by (cases v) (auto simp: update_conv')

lemma py_getitem_setitem_other:
  "py_setitem v k x = Inr w \<Longrightarrow> k' \<noteq> k \<Longrightarrow> py_getitem w k' = py_getitem v k'"
  by (cases v) (auto simp: update_conv')

lemma ChapterScene_stop_Inr:
  assumes "ChapterScene_stop c g = Inr g'"
  shows "saved_chapter (save g') = Inr (chapter_no c)
     \<and> saved_position (save g') = Inr (PInt (rect_x (player c)), PInt (rect_y (player c)))
     \<and> save_file (disk g') = Content (json_dumps (save g'))
     \<and> calls g' = calls g \<and> scene g' = scene g"
proof -
  from assms obtain s1 p p1 s2 q q1 s3 d where
    s1: "py_setitem (save g) ''chapter'' (chapter_no c) = Inr s1"
    and p: "py_getitem s1 ''player'' = Inr p"
    and p1: "py_setitem p ''x'' (PInt (rect_x (player c))) = Inr p1"
    and s2: "py_setitem s1 ''player'' p1 = Inr s2"
    and q: "py_getitem s2 ''player'' = Inr q"
    and q1: "py_setitem q ''y'' (PInt (rect_y (player c))) = Inr q1"
    and s3: "py_setitem s2 ''player'' q1 = Inr s3"
    and d: "write_save s3 (disk g) = Inr d"
    and g': "g' = g\<lparr>save := s3, disk := d\<rparr>"
    unfolding ChapterScene_stop_def and_then_def
    by (auto split: sum.splits)
  have qp: "q = p1" using s2 q by (simp add: py_getitem_setitem_same)
  have "py_getitem s3 ''chapter'' = Inr (chapter_no c)"
    using s1 s2 s3 by (simp add: py_getitem_setitem_other py_getitem_setitem_same)
  moreover have "py_getitem s3 ''player'' = Inr q1"
    using s3 by (simp add: py_getitem_setitem_same)
  moreover have "py_getitem q1 ''y'' = Inr (PInt (rect_y (player c)))"
    using q1 by (simp add: py_getitem_setitem_same)
  moreover have "py_getitem q1 ''x'' = Inr (PInt (rect_x (player c)))"
    using q1 p1 qp by (simp add: py_getitem_setitem_other py_getitem_setitem_same)
  moreover have "save_file d = Content (json_dumps s3)"
    using d by (auto simp: write_save_def write_text_def split: if_splits)
  ultimately show ?thesis using g'
    by (simp add: saved_chapter_def saved_position_def and_then_def)
qed

lemma ChapterScene_stop_returns:
  assumes "has_player_dict (save g)" and "writable (disk g)"
  shows "\<exists>g'. ChapterScene_stop c g = Inr g'"
proof -
  obtain kvs where sv: "save g = PDict kvs"
    using assms(1) by (cases "save g") (auto simp: has_player_dict_def)
  obtain v where v: "map_of kvs ''player'' = Some v"
    using assms(1) sv by (cases "map_of kvs ''player''") (auto simp: has_player_dict_def)
  obtain pkvs where "v = PDict pkvs"
    using assms(1) sv v by (cases v) (auto simp: has_player_dict_def)
  with v have pl: "map_of kvs ''player'' = Some (PDict pkvs)" by simp
  show ?thesis
    using assms(2)
    by (simp add: ChapterScene_stop_def and_then_def sv pl update_conv' write_save_def
        write_text_def)
qed

lemma dispatch_start_returns:
  assumes "can_start (scene g)"
  shows "\<exists>g'. dispatch_start g = Inr g'"
proof (cases "scene g")
  case (Title t)
  then show ?thesis by (simp add: dispatch_start_def)
next
  case (Chapter c)
  with assms have "\<exists>c'. ChapterScene_start c = Inr c'"
    by (cases "chapter_no c") (simp_all add: can_start_def ChapterScene_start_def and_then_def)
  with Chapter show ?thesis by (auto simp: dispatch_start_def and_then_def)
qed

text \<open>
  Claim C3. Whenever \<open>change_scene\<close> returns, it has logged the stop of the outgoing scene
  and then the start of the incoming one, and nothing else. If the outgoing scene is a chapter
  scene, the save data then hold its chapter number and the position of its entity, and the
  save file holds the encoding of the save data; if it is the title scene, the save data
  are as before. And \<open>change_scene\<close> does return when the save data are a dictionary with
  a dictionary under the key for the player, the disk is writable and the incoming scene can
  start.
\<close>

theorem change_scene_order_and_commit:
  "(\<forall>g'. change_scene new_scene g = Inr g' \<longrightarrow>
       calls g' = calls g @ [Stop (scene g), Start new_scene]
     \<and> (\<forall>c. scene g = Chapter c \<longrightarrow>
            saved_chapter (save g') = Inr (chapter_no c)
          \<and> saved_position (save g') = Inr (PInt (rect_x (player c)), PInt (rect_y (player c)))
          \<and> save_file (disk g') = Content (json_dumps (save g')))
     \<and> (\<forall>t. scene g = Title t \<longrightarrow> save g' = save g))
   \<and> (has_player_dict (save g) \<and> writable (disk g) \<and> can_start new_scene \<longrightarrow>
        (\<exists>g'. change_scene new_scene g = Inr g'))"
proof (intro conjI allI impI)
  fix g'
  assume cs: "change_scene new_scene g = Inr g'"
  then obtain g1 where stop: "dispatch_stop g = Inr g1"
    and start: "dispatch_start (g1\<lparr>scene := new_scene\<rparr>) = Inr g'"
    by (auto simp: change_scene_def and_then_def split: sum.splits)
  have g1: "calls g1 = calls g @ [Stop (scene g)]"
  proof (cases "scene g")
    case (Title t)
    then show ?thesis using stop by (auto simp: dispatch_stop_Title)
  next
    case (Chapter c)
    then have "ChapterScene_stop c (g\<lparr>calls := calls g @ [Stop (scene g)]\<rparr>) = Inr g1"
      using stop by (simp add: dispatch_stop_def)
    from ChapterScene_stop_Inr [OF this] show ?thesis by simp
  qed
  from dispatch_start_Inr [OF start]
  have keep: "save g' = save g1" "disk g' = disk g1"
    and log: "calls g' = calls g1 @ [Start new_scene]" by simp_all
  show "calls g' = calls g @ [Stop (scene g), Start new_scene]"
    using g1 log by simp
  {
    fix c
    assume sc: "scene g = Chapter c"
    then have "ChapterScene_stop c (g\<lparr>calls := calls g @ [Stop (scene g)]\<rparr>) = Inr g1"
      using stop by (simp add: dispatch_stop_def)
    from ChapterScene_stop_Inr [OF this] keep
    show "saved_chapter (save g') = Inr (chapter_no c)"
      and "saved_position (save g') = Inr (PInt (rect_x (player c)), PInt (rect_y (player c)))"
      and "save_file (disk g') = Content (json_dumps (save g'))"
      by simp_all
  }
  {
    fix t
    assume "scene g = Title t"
    then show "save g' = save g"
      using stop keep by (auto simp: dispatch_stop_Title)
  }
next
  assume wf: "has_player_dict (save g) \<and> writable (disk g) \<and> can_start new_scene"
  have "\<exists>g1. dispatch_stop g = Inr g1"
  proof (cases "scene g")
    case (Title t)
    then show ?thesis by (simp add: dispatch_stop_Title)
  next
    case (Chapter c)
    have "\<exists>g1. ChapterScene_stop c (g\<lparr>calls := calls g @ [Stop (scene g)]\<rparr>) = Inr g1"
      using wf by (intro ChapterScene_stop_returns) simp_all
    then show ?thesis using Chapter by (simp add: dispatch_stop_def)
  qed
  then obtain g1 where g1: "dispatch_stop g = Inr g1" by blast
  have "can_start (scene (g1\<lparr>scene := new_scene\<rparr>))" using wf by simp
  from dispatch_start_returns [OF this] g1
  show "\<exists>g'. change_scene new_scene g = Inr g'"
    by (simp add: change_scene_def and_then_def)
qed

theorem change_scene_order_and_commit_witness:
  "map_sum id
     (\<lambda>g'. (calls g', saved_chapter (save g'), saved_position (save g'),
            save_file (disk g') = Content (json_dumps (save g'))))
     (change_scene (Title \<lparr>timer = None\<rparr>)
        \<lparr>save = save_record 1 50 50,
         scene = Chapter ((started ChapterTwo 2)
                   \<lparr>player := \<lparr>rect_x = 51, rect_y = 52, rect_w = 16, rect_h = 24\<rparr>\<rparr>),
         disk = \<lparr>save_file = Missing, writable = True\<rparr>, calls = []\<rparr>)
   = Inr ([Stop (Chapter ((started ChapterTwo 2)
                   \<lparr>player := \<lparr>rect_x = 51, rect_y = 52, rect_w = 16, rect_h = 24\<rparr>\<rparr>)),
           Start (Title \<lparr>timer = None\<rparr>)],
          Inr (PInt 2), Inr (PInt 51, PInt 52), True)"
proof -
  let ?old = "Chapter ((started ChapterTwo 2)
                   \<lparr>player := \<lparr>rect_x = 51, rect_y = 52, rect_w = 16, rect_h = 24\<rparr>\<rparr>)"
  let ?game = "\<lparr>save = save_record 1 50 50, scene = ?old,
         disk = \<lparr>save_file = Missing, writable = True\<rparr>, calls = []\<rparr>"
  let ?new = "Title \<lparr>timer = None\<rparr>"
  note inst = change_scene_order_and_commit [of ?new ?game]
  have "has_player_dict (save ?game) \<and> writable (disk ?game) \<and> can_start ?new"
    by (simp add: has_player_dict_def save_record_def can_start_def)
  with inst obtain g' where r: "change_scene ?new ?game = Inr g'" by blast
  with inst have "calls g' = calls ?game @ [Stop (scene ?game), Start ?new]"
    and "saved_chapter (save g') = Inr (chapter_no (started ChapterTwo 2
            \<lparr>player := \<lparr>rect_x = 51, rect_y = 52, rect_w = 16, rect_h = 24\<rparr>\<rparr>))"
    and "saved_position (save g') = Inr (PInt 51, PInt 52)"
    and "save_file (disk g') = Content (json_dumps (save g'))"
    by simp_all
  then show ?thesis using r by (simp add: started_def ChapterScene_init_def)
qed

text \<open>
  Claim C10. When the title scene is the outgoing scene and \<open>change_scene\<close> returns, the
  save data and the disk are as they were before the call; and it returns for every
  incoming scene that can start.
\<close>

theorem leaving_title_keeps_save:
  assumes "scene g = Title t"
  shows "(\<forall>g'. change_scene new_scene g = Inr g' \<longrightarrow> save g' = save g \<and> disk g' = disk g)
       \<and> (can_start new_scene \<longrightarrow> (\<exists>g'. change_scene new_scene g = Inr g'))"
proof (intro conjI allI impI)
  fix g'
  assume "change_scene new_scene g = Inr g'"
  then have "dispatch_start (g\<lparr>calls := calls g @ [Stop (Title t)], scene := new_scene\<rparr>) = Inr g'"
    using assms by (simp add: change_scene_def dispatch_stop_Title and_then_def)
  from dispatch_start_Inr [OF this] show "save g' = save g" and "disk g' = disk g" by simp_all
next
  assume "can_start new_scene"
  then have "can_start (scene (g\<lparr>calls := calls g @ [Stop (Title t)], scene := new_scene\<rparr>))"
    by simp
  from dispatch_start_returns [OF this] show "\<exists>g'. change_scene new_scene g = Inr g'"
    using assms by (simp add: change_scene_def dispatch_stop_Title and_then_def)
qed

theorem leaving_title_keeps_save_witness:
  "map_sum id (\<lambda>g'. (save g', disk g'))
        (change_scene (Chapter (ChapterScene_init ChapterThree (PInt 3)))
           \<lparr>save = save_record 3 70 80, scene = Title \<lparr>timer = Some 2016\<rparr>,
            disk = \<lparr>save_file = Content ''old text'', writable = True\<rparr>, calls = []\<rparr>)
     = Inr (save_record 3 70 80, \<lparr>save_file = Content ''old text'', writable = True\<rparr>)"
proof -
  let ?game = "\<lparr>save = save_record 3 70 80, scene = Title \<lparr>timer = Some 2016\<rparr>,
          disk = \<lparr>save_file = Content ''old text'', writable = True\<rparr>, calls = []\<rparr>"
  let ?new = "Chapter (ChapterScene_init ChapterThree (PInt 3))"
  have sc: "scene ?game = Title \<lparr>timer = Some 2016\<rparr>" by simp
  have cs: "can_start ?new" by (simp add: can_start_def ChapterScene_init_def)
  from leaving_title_keeps_save [OF sc, of ?new] cs
  obtain g' where r: "change_scene ?new ?game = Inr g'"
    and k: "save g' = save ?game" "disk g' = disk ?game"
    by blast
  show ?thesis using r k by simp
qed

section \<open>The scene factory\<close>

lemma ChapterScene_start_cls:
  "ChapterScene_start (c\<lparr>cls := k\<rparr>) = map_sum id (\<lambda>c'. c'\<lparr>cls := k\<rparr>) (ChapterScene_start c)"
  by (simp add: ChapterScene_start_def and_then_def split: sum.splits)

lemma ChapterScene_stop_cls:
  "ChapterScene_stop (c\<lparr>cls := k\<rparr>) g = ChapterScene_stop c g"
  by (simp add: ChapterScene_stop_def)

lemma ChapterScene_stop_forget:
  "map_sum id forget_class (ChapterScene_stop c g) = ChapterScene_stop c (forget_class g)"
  by (simp add: ChapterScene_stop_def and_then_def forget_class_def split: sum.splits)

lemma dispatch_stop_forget:
  "map_sum id forget_class (dispatch_stop g) = dispatch_stop (forget_class g)"
proof (cases "scene g")
  case (Title t)
  then show ?thesis by (simp add: dispatch_stop_def forget_class_def)
next
  case (Chapter c)
  have "forget_class (g\<lparr>calls := calls g @ [Stop (Chapter c)]\<rparr>)
      = (forget_class g)\<lparr>calls := calls (forget_class g) @ [Stop (Chapter (c\<lparr>cls := ChapterScene_class\<rparr>))]\<rparr>"
    using Chapter by (simp add: forget_class_def)
  then show ?thesis
    using Chapter ChapterScene_stop_forget [of c "g\<lparr>calls := calls g @ [Stop (Chapter c)]\<rparr>"]
    by (simp add: dispatch_stop_def ChapterScene_stop_cls forget_class_def)
qed

lemma dispatch_start_forget:
  "map_sum id forget_class (dispatch_start g) = dispatch_start (forget_class g)"
proof (cases "scene g")
  case (Title t)
  then show ?thesis by (simp add: dispatch_start_def forget_class_def)
next
  case (Chapter c)
  then show ?thesis
    by (cases "ChapterScene_start c")
       (simp_all add: dispatch_start_def forget_class_def ChapterScene_start_cls and_then_def)
qed

lemma forget_class_scene_update:
  "forget_class (g\<lparr>scene := s\<rparr>) = (forget_class g)\<lparr>scene := forget_scene s\<rparr>"
  by (simp add: forget_class_def)

lemma change_scene_forget:
  "map_sum id forget_class (change_scene s g) = change_scene (forget_scene s) (forget_class g)"
proof (cases "dispatch_stop g")
  case (Inl e)
  then have "dispatch_stop (forget_class g) = Inl e"
    using dispatch_stop_forget [of g] by simp
  with Inl show ?thesis by (simp add: change_scene_def and_then_def)
next
  case (Inr g1)
  then have "dispatch_stop (forget_class g) = Inr (forget_class g1)"
    using dispatch_stop_forget [of g] by simp
  with Inr show ?thesis
    using dispatch_start_forget [of "g1\<lparr>scene := s\<rparr>"]
    by (simp add: change_scene_def and_then_def forget_class_scene_update)
qed

lemma forget_scene_idem: "forget_scene (forget_scene s) = forget_scene s"
  by (cases s) simp_all

lemma forget_call_idem: "forget_call (forget_call c) = forget_call c"
  by (cases c) (simp_all add: forget_scene_idem)

lemma forget_class_idem: "forget_class (forget_class g) = forget_class g"
  by (simp add: forget_class_def forget_scene_idem forget_call_idem)

lemma change_scene_forget_arg:
  "map_sum id forget_class (change_scene s (forget_class g))
     = map_sum id forget_class (change_scene s g)"
proof -
  have "map_sum id forget_class (change_scene s (forget_class g))
      = change_scene (forget_scene s) (forget_class (forget_class g))"
    by (rule change_scene_forget)
  also have "\<dots> = map_sum id forget_class (change_scene s g)"
    by (simp add: forget_class_idem change_scene_forget)
  finally show ?thesis .
qed

lemma dispatch_update_forget:
  "map_sum id forget_class (dispatch_update dt ks (forget_class g))
     = map_sum id forget_class (dispatch_update dt ks g)"
proof (cases "scene g")
  case (Title t)
  show ?thesis
  proof (cases "timer t")
    case None
    with Title show ?thesis by (simp add: dispatch_update_def TitleScene_update_def forget_class_def)
  next
    case (Some t0)
    let ?g1 = "g\<lparr>scene := Title (t\<lparr>timer := Some (t0 + dt)\<rparr>)\<rparr>"
    have f1: "(forget_class g)\<lparr>scene := Title (t\<lparr>timer := Some (t0 + dt)\<rparr>)\<rparr> = forget_class ?g1"
      by (simp add: forget_class_def)
    have sv: "\<And>h. save (forget_class h) = save h" by (simp add: forget_class_def)
    have sc: "scene (forget_class g) = Title t" using Title by (simp add: forget_class_def)
    show ?thesis
    proof (cases "2000 < t0 + dt")
      case False
      then show ?thesis using Title Some sc
        by (simp add: dispatch_update_def TitleScene_update_def f1 forget_class_idem)
    next
      case True
      show ?thesis
      proof (cases "and_then (py_getitem (save g) ''chapter'') ChapterScene_make")
        case (Inl e)
        then show ?thesis using Title Some sc True
          by (auto simp: dispatch_update_def TitleScene_update_def sv and_then_def split: sum.splits)
      next
        case (Inr new)
        then have "dispatch_update dt ks g = change_scene (Chapter new) ?g1"
          using Title Some True
          by (auto simp: dispatch_update_def TitleScene_update_def and_then_def split: sum.splits)
        moreover have "dispatch_update dt ks (forget_class g) = change_scene (Chapter new) (forget_class ?g1)"
          using Inr Some True sc
          by (auto simp: dispatch_update_def TitleScene_update_def and_then_def sv f1 Let_def
              split: sum.splits)
        ultimately show ?thesis by (simp add: change_scene_forget_arg)
      qed
    qed
  qed
next
  case (Chapter c)
  have sc: "scene (forget_class g) = Chapter (c\<lparr>cls := ChapterScene_class\<rparr>)"
    using Chapter by (simp add: forget_class_def)
  show ?thesis
  proof (cases "K_ESCAPE ks")
    case True
    then have "dispatch_update dt ks g = change_scene (Title \<lparr>timer = None\<rparr>) g"
      using Chapter
      by (cases "change_scene (Title \<lparr>timer = None\<rparr>) g")
         (simp_all add: dispatch_update_def ChapterScene_update_def and_then_def Let_def)
    moreover have "dispatch_update dt ks (forget_class g)
        = change_scene (Title \<lparr>timer = None\<rparr>) (forget_class g)"
      using sc True
      by (cases "change_scene (Title \<lparr>timer = None\<rparr>) (forget_class g)")
         (simp_all add: dispatch_update_def ChapterScene_update_def and_then_def Let_def)
    ultimately show ?thesis by (simp add: change_scene_forget_arg)
  next
    case False
    show ?thesis
      using chapter_update_no_escape [OF Chapter False, of dt]
        chapter_update_no_escape [OF sc False, of dt]
      by (simp add: forget_class_def forget_scene_idem forget_call_idem)
  qed
qed

text \<open>
  On every integer the factory returns a scene and raises nothing: the variant named after
  the chapter for 1, 2, 3 and 4, the generic variant for every other integer, each with the
  attributes that the one constructor gives.
\<close>

lemma ChapterScene_make_named_or_generic:
  "ChapterScene_make (PInt n)
     = Inr \<lparr>cls = (if n = 1 then ChapterOne else if n = 2 then ChapterTwo
                   else if n = 3 then ChapterThree else if n = 4 then ChapterFour
                   else ChapterScene_class),
            chapter_no = PInt n,
            player = \<lparr>rect_x = 50, rect_y = 50, rect_w = 16, rect_h = 24\<rparr>,
            speed = 120, world_color = None\<rparr>"
  by (simp add: ChapterScene_make_def hashable_def mapping_get_def ChapterScene_init_def)

text \<open>
  The colour that \<^verbatim>\<open>start\<close> derives from the integer chapter \<open>n\<close> is accepted by the drawing
  exactly for \<open>n\<close> from 0 to 4: beyond, \<open>60 * n\<close> is above 255.
\<close>

lemma valid_component_PInt: "valid_component (PInt i) \<longleftrightarrow> 0 \<le> i \<and> i \<le> 255"
  by (simp add: valid_component_def color_component_def)

lemma ChapterScene_draw_started:
  "ChapterScene_draw (started k n) = (if 0 \<le> n \<and> n \<le> 4 then Inr () else Inl ValueError)"
  by (auto simp: ChapterScene_draw_def started_def surf_fill_def valid_component_PInt)

lemma ChapterScene_draw_cls: "ChapterScene_draw (c\<lparr>cls := k\<rparr>) = ChapterScene_draw c"
  by (simp add: ChapterScene_draw_def)

lemma ChapterScene_draw_player: "ChapterScene_draw (c\<lparr>player := r\<rparr>) = ChapterScene_draw c"
  by (simp add: ChapterScene_draw_def)

lemma dispatch_draw_forget: "dispatch_draw (forget_class g) = dispatch_draw g"
  by (cases "scene g") (simp_all add: dispatch_draw_def forget_class_def ChapterScene_draw_cls)

text \<open>Frames that return have given what their updates give.\<close>

lemma run_frames_run_updates:
  "run_frames frames g = Inr g' \<Longrightarrow> run_updates frames g = Inr g'"
proof (induction frames arbitrary: g)
  case Nil
  then show ?case by simp
next
  case (Cons f frames)
  obtain dt ks where f: "f = (dt, ks)" by (cases f)
  from Cons.prems f obtain g1 where u: "dispatch_update dt ks g = Inr g1"
    and r: "run_frames frames g1 = Inr g'"
    by (auto simp: and_then_def split: sum.splits)
  from Cons.IH [OF r] u f show ?case by (simp add: and_then_def)
qed

text \<open>
  The class of a scene is never read: the frames from a state whose class tags are forgotten
  give the result of the original state, up to class tags.
\<close>

lemma run_frames_forget:
  "map_sum id forget_class (run_frames frames (forget_class g))
     = map_sum id forget_class (run_frames frames g)"
proof (induction frames arbitrary: g)
  case Nil
  then show ?case by (simp add: forget_class_idem)
next
  case (Cons f frames)
  obtain dt ks where f: "f = (dt, ks)" by (cases f)
  note u = dispatch_update_forget [of dt ks g]
  show ?case
  proof (cases "dispatch_update dt ks g")
    case (Inl e)
    with u have "dispatch_update dt ks (forget_class g) = Inl e"
      by (cases "dispatch_update dt ks (forget_class g)") simp_all
    with Inl f show ?thesis by (simp add: and_then_def)
  next
    case (Inr g1)
    with u obtain h1 where h: "dispatch_update dt ks (forget_class g) = Inr h1"
      and eq: "forget_class h1 = forget_class g1"
      by (cases "dispatch_update dt ks (forget_class g)") simp_all
    have d: "dispatch_draw h1 = dispatch_draw g1"
      using dispatch_draw_forget [of h1] dispatch_draw_forget [of g1] eq by simp
    have "map_sum id forget_class (run_frames frames h1)
        = map_sum id forget_class (run_frames frames g1)"
      using Cons.IH [of h1, symmetric] Cons.IH [of g1] by (simp only: eq)
    with Inr h d f show ?thesis
      by (cases "dispatch_draw g1") (simp_all add: and_then_def id_def)
  qed
qed

text \<open>
  The frame in which the title scene hands over to a chapter outside 0 to 4 raises
  \<^verbatim>\<open>ValueError\<close>, from the drawing of the chapter scene.
\<close>

lemma chapter_outside_0_4_raises:
  assumes "scene g = Title \<lparr>timer = Some t\<rparr>" and "2000 < t + dt"
    and "py_getitem (save g) ''chapter'' = Inr (PInt n)"
    and "n < 0 \<or> 4 < n"
  shows "run_frames ((dt, ks) # frames) g = Inl ValueError"
  using title_fire [OF assms(1,2,3), of ks] assms(4)
  by (auto simp: and_then_def dispatch_draw_def ChapterScene_draw_started)

text \<open>
  For a saved chapter from 0 to 4 and frames without Escape, the drawing never raises: the
  frames give what their updates give.
\<close>

lemma update_keeps_drawable:
  assumes "dispatch_update dt ks g = Inr g1" and "\<not> K_ESCAPE ks"
    and "py_getitem (save g) ''chapter'' = Inr (PInt n)" and "0 \<le> n" and "n \<le> 4"
    and "dispatch_draw g = Inr ()"
  shows "dispatch_draw g1 = Inr () \<and> save g1 = save g"
proof (cases "scene g")
  case (Title t)
  from assms(1) Title obtain t0 where t0: "timer t = Some t0"
    by (cases "timer t") (auto simp: dispatch_update_def TitleScene_update_def)
  then have sc: "scene g = Title \<lparr>timer = Some t0\<rparr>" using Title by simp
  show ?thesis
  proof (cases "t0 + dt \<le> 2000")
    case True
    from title_wait_step [OF sc True, of ks] assms(1) show ?thesis
      by (auto simp: dispatch_draw_def TitleScene_draw_def)
  next
    case False
    then have "2000 < t0 + dt" by simp
    from title_fire [OF sc this assms(3), of ks] assms(1,4,5) show ?thesis
      by (auto simp: dispatch_draw_def ChapterScene_draw_started)
  qed
next
  case (Chapter c)
  from chapter_update_no_escape [OF Chapter assms(2), of dt] assms(1,6) Chapter show ?thesis
    by (auto simp: dispatch_draw_def ChapterScene_draw_player)
qed

lemma run_frames_eq_run_updates:
  assumes "\<forall>f \<in> set frames. \<not> K_ESCAPE (snd f)"
    and "py_getitem (save g) ''chapter'' = Inr (PInt n)" and "0 \<le> n" and "n \<le> 4"
    and "dispatch_draw g = Inr ()"
  shows "run_frames frames g = run_updates frames g"
  using assms
proof (induction frames arbitrary: g)
  case Nil
  then show ?case by simp
next
  case (Cons f frames)
  obtain dt ks where f: "f = (dt, ks)" by (cases f)
  show ?case
  proof (cases "dispatch_update dt ks g")
    case (Inl e)
    with f show ?thesis by (simp add: and_then_def)
  next
    case (Inr g1)
    from Cons.prems(1) f have ne: "\<not> K_ESCAPE ks"
      and rest: "\<forall>f \<in> set frames. \<not> K_ESCAPE (snd f)" by simp_all
    from update_keeps_drawable [OF Inr ne Cons.prems(2,3,4,5)]
    have d: "dispatch_draw g1 = Inr ()" and s: "save g1 = save g" by simp_all
    have ch: "py_getitem (save g1) ''chapter'' = Inr (PInt n)" using s Cons.prems(2) by simp
    from Cons.IH [OF rest ch Cons.prems(3,4) d] Inr d f show ?thesis
      by (simp add: and_then_def)
  qed
qed

text \<open>
  Claim C5, evaluated on the source. The factory returns a scene for the integer 5 and raises
  nothing: the generic variant. But that scene does not behave as the named variants do.
  Start the game with save data of chapter 5 and let the title scene hand over: \<^verbatim>\<open>start\<close>
  gives the chapter scene the colour (250, 100, 300), and the drawing of that very frame raises
  \<^verbatim>\<open>ValueError\<close>, since 300 is no colour component. With chapter 4 the same frames and one
  more are drawn, and the scene of the game is then the variant of chapter 4, with the colour
  (200, 80, 240).
\<close>

theorem generic_chapter_raises_on_draw:
  "ChapterScene_make (PInt 5)
     = Inr \<lparr>cls = ChapterScene_class, chapter_no = PInt 5,
            player = \<lparr>rect_x = 50, rect_y = 50, rect_w = 16, rect_h = 24\<rparr>,
            speed = 120, world_color = None\<rparr>
   \<and> and_then (DeltaGame_init (save_record 5 50 50) \<lparr>save_file = Missing, writable = True\<rparr>)
        (run_frames [(1000, no_keys), (1000, no_keys), (16, no_keys)])
     = Inl ValueError
   \<and> map_sum id scene
        (and_then (DeltaGame_init (save_record 4 50 50) \<lparr>save_file = Missing, writable = True\<rparr>)
           (run_frames [(1000, no_keys), (1000, no_keys), (16, no_keys), (16, no_keys)]))
     = Inr (Chapter \<lparr>cls = ChapterFour, chapter_no = PInt 4,
                     player = \<lparr>rect_x = 50, rect_y = 50, rect_w = 16, rect_h = 24\<rparr>,
                     speed = 120, world_color = Some (PInt 200, PInt 80, PInt 240)\<rparr>)"
  by (simp add: ChapterScene_make_named_or_generic DeltaGame_init_eq and_then_def
      dispatch_update_def TitleScene_update_def save_record_def change_scene_def
      dispatch_stop_def dispatch_start_def ChapterScene_start_def
      dispatch_draw_def TitleScene_draw_def ChapterScene_draw_def surf_fill_def
      valid_component_def color_component_def no_keys_def ChapterScene_update_def
      move_ip_def c_int_0 wrap_int32_def Let_def)

end
